theory Spec2Isabelle
  imports Main "HOL-Library.Word"
begin

section \<open>Edit records and snapshots\<close>

text \<open>
  The C++ type \<^verbatim>\<open>unsigned\<close> is a 32-bit word and \<^verbatim>\<open>size_t\<close> (the type of
  \<^verbatim>\<open>StringRef::size()\<close>) a 64-bit word (LP64).  Arithmetic on them wraps around.
\<close>

type_synonym unsigned = "32 word"
type_synonym size_t = "64 word"

text \<open>
  Modelled from the spec: \<^verbatim>\<open>ReplaceImmutableTextUpdate\<close> is declared in
  \<^verbatim>\<open>SourceKit/Support/ImmutableTextBuffer.h\<close>.  An edit record is one contiguous text
  replacement: starting byte offset (\<^verbatim>\<open>getByteOffset()\<close>), length of the removed text
  (\<^verbatim>\<open>getLength()\<close>) and the inserted text (\<^verbatim>\<open>getText()\<close>, a \<^verbatim>\<open>StringRef\<close>).  The two
  numbers are \<^verbatim>\<open>unsigned\<close>, like every offset and length of the source file.
\<close>

record ReplaceImmutableTextUpdate =
  ByteOffset :: unsigned
  Length :: unsigned
  Text :: string

text \<open>
  Modelled from the spec: \<^verbatim>\<open>ImmutableTextSnapshot\<close>, an immutable view of a document's
  text at one point in time: owning document identity, stamp and text content.
\<close>

record ImmutableTextSnapshot =
  BufferId :: nat
  Stamp :: nat
  Buffer :: string

definition isFromSameBuffer :: "ImmutableTextSnapshot \<Rightarrow> ImmutableTextSnapshot \<Rightarrow> bool" where
  "isFromSameBuffer A B \<longleftrightarrow> BufferId A = BufferId B"

text \<open>\<^verbatim>\<open>StringRef::size()\<close>: the byte length as a \<^verbatim>\<open>size_t\<close>.\<close>

definition StringRef_size :: "string \<Rightarrow> size_t" where
  "StringRef_size s = of_nat (length s)"

text \<open>
  Modelled from the spec: the edit log.  Given two snapshots of the same document it
  produces the ordered sequence of edit records that transforms the older into the newer.
\<close>

type_synonym edit_log =
  "ImmutableTextSnapshot \<Rightarrow> ImmutableTextSnapshot \<Rightarrow> ReplaceImmutableTextUpdate list"

text \<open>
  Modelled from the spec: \<^verbatim>\<open>foreachReplaceUntil\<close> hands the edit records between this
  snapshot and \<^verbatim>\<open>EndSnapshot\<close> to the callback in chain order.  The callback mutates
  captured state (threaded here as \<open>s\<close>) and returns whether to continue; the traversal
  returns \<open>False\<close> iff the callback stopped it.
\<close>

fun foreachReplace ::
  "ReplaceImmutableTextUpdate list \<Rightarrow> (ReplaceImmutableTextUpdate \<Rightarrow> 's \<Rightarrow> bool \<times> 's) \<Rightarrow> 's \<Rightarrow> bool \<times> 's"
where
  "foreachReplace [] Fn s = (True, s)"
| "foreachReplace (Upd # Upds) Fn s =
     (case Fn Upd s of
        (False, s') \<Rightarrow> (False, s')
      | (True, s') \<Rightarrow> foreachReplace Upds Fn s')"

definition foreachReplaceUntil ::
  "edit_log \<Rightarrow> ImmutableTextSnapshot \<Rightarrow> ImmutableTextSnapshot \<Rightarrow>
   (ReplaceImmutableTextUpdate \<Rightarrow> 's \<Rightarrow> bool \<times> 's) \<Rightarrow> 's \<Rightarrow> bool \<times> 's"
where
  "foreachReplaceUntil L This EndSnapshot Fn s = foreachReplace (L This EndSnapshot) Fn s"

section \<open>Offset remapping\<close>

subsection \<open>\<^verbatim>\<open>mapOffsetToOlderSnapshot\<close>\<close>

text \<open>The test "Offset is part of newly inserted text"; the sum is computed in \<^verbatim>\<open>size_t\<close>.\<close>

definition partOfInsertedText :: "ReplaceImmutableTextUpdate \<Rightarrow> unsigned \<Rightarrow> bool" where
  "partOfInsertedText Upd Offset \<longleftrightarrow>
     ByteOffset Upd \<le> Offset \<and>
     (ucast Offset :: size_t) < ucast (ByteOffset Upd) + StringRef_size (Text Upd)"

text \<open>
  \<^verbatim>\<open>Offset += Upd->getLength(); Offset -= Upd->getText().size();\<close>  The subtraction is
  computed in \<^verbatim>\<open>size_t\<close> and converted back to \<^verbatim>\<open>unsigned\<close>.
\<close>

definition undoUpdate :: "ReplaceImmutableTextUpdate \<Rightarrow> unsigned \<Rightarrow> unsigned" where
  "undoUpdate Upd Offset =
     (let Offset1 = Offset + Length Upd
      in ucast ((ucast Offset1 :: size_t) - StringRef_size (Text Upd)))"

text \<open>The loop "walk the updates backwards and undo them", over the reversed vector.\<close>

fun undoUpdates :: "ReplaceImmutableTextUpdate list \<Rightarrow> unsigned \<Rightarrow> unsigned option" where
  "undoUpdates [] Offset = Some Offset"
| "undoUpdates (Upd # Upds) Offset =
     (if partOfInsertedText Upd Offset then None
      else undoUpdates Upds (if ByteOffset Upd \<le> Offset then undoUpdate Upd Offset else Offset))"

definition mapOffsetToOlderSnapshot ::
  "edit_log \<Rightarrow> unsigned \<Rightarrow> ImmutableTextSnapshot \<Rightarrow> ImmutableTextSnapshot \<Rightarrow> unsigned option"
where
  "mapOffsetToOlderSnapshot L Offset NewSnap OldSnap =
     (let Updates = snd (foreachReplaceUntil L OldSnap NewSnap
                           (\<lambda>Upd Updates. (True, Updates @ [Upd])) [])
      in undoUpdates (rev Updates) Offset)"

subsection \<open>\<^verbatim>\<open>mapOffsetToNewerSnapshot\<close>\<close>

text \<open>The test "Offset is part of removed text"; the sum is computed in \<^verbatim>\<open>unsigned\<close>.\<close>

definition partOfRemovedText :: "ReplaceImmutableTextUpdate \<Rightarrow> unsigned \<Rightarrow> bool" where
  "partOfRemovedText Upd Offset \<longleftrightarrow>
     ByteOffset Upd \<le> Offset \<and> Offset < ByteOffset Upd + Length Upd"

text \<open>
  \<^verbatim>\<open>Offset += Upd->getText().size(); Offset -= Upd->getLength();\<close>  The addition is
  computed in \<^verbatim>\<open>size_t\<close> and converted back to \<^verbatim>\<open>unsigned\<close>.
\<close>

definition redoUpdate :: "ReplaceImmutableTextUpdate \<Rightarrow> unsigned \<Rightarrow> unsigned" where
  "redoUpdate Upd Offset =
     (let Offset1 = (ucast ((ucast Offset :: size_t) + StringRef_size (Text Upd)) :: unsigned)
      in Offset1 - Length Upd)"

text \<open>The callback passed to \<^verbatim>\<open>foreachReplaceUntil\<close>; the captured \<^verbatim>\<open>Offset\<close> is its state.\<close>

definition newerCallback :: "ReplaceImmutableTextUpdate \<Rightarrow> unsigned \<Rightarrow> bool \<times> unsigned" where
  "newerCallback Upd Offset =
     (if partOfRemovedText Upd Offset then (False, Offset)
      else (True, if ByteOffset Upd \<le> Offset then redoUpdate Upd Offset else Offset))"

definition mapOffsetToNewerSnapshot ::
  "edit_log \<Rightarrow> unsigned \<Rightarrow> ImmutableTextSnapshot \<Rightarrow> ImmutableTextSnapshot \<Rightarrow> unsigned option"
where
  "mapOffsetToNewerSnapshot L Offset OldSnap NewSnap =
     (case foreachReplaceUntil L OldSnap NewSnap newerCallback Offset of
        (Completed, Offset') \<Rightarrow> if Completed then Some Offset' else None)"

section \<open>Edit chains and the remap contract\<close>

text \<open>
  Modelled from the spec: one edit record replaces \<^verbatim>\<open>Length\<close> bytes at \<^verbatim>\<open>ByteOffset\<close> by
  \<^verbatim>\<open>Text\<close>; replaying the records in order transforms one snapshot's text into the next.
\<close>

definition replaceText :: "ReplaceImmutableTextUpdate \<Rightarrow> string \<Rightarrow> string" where
  "replaceText Upd str =
     take (unat (ByteOffset Upd)) str @ Text Upd @
     drop (unat (ByteOffset Upd) + unat (Length Upd)) str"

text \<open>
  Replaying a chain on a text.  The replay is defined only if every edit lies inside the
  text it is applied to and every text along the way is short enough for all of its
  offsets to be values of \<^verbatim>\<open>unsigned\<close>.
\<close>

fun replayEdits :: "string \<Rightarrow> ReplaceImmutableTextUpdate list \<Rightarrow> string option" where
  "replayEdits str [] = (if length str < 2 ^ 32 then Some str else None)"
| "replayEdits str (Upd # Upds) =
     (if length str < 2 ^ 32 \<and> unat (ByteOffset Upd) + unat (Length Upd) \<le> length str
      then replayEdits (replaceText Upd str) Upds else None)"

text \<open>The edit records between two snapshots connect them: the replay yields the newer text.\<close>

definition connects :: "edit_log \<Rightarrow> ImmutableTextSnapshot \<Rightarrow> ImmutableTextSnapshot \<Rightarrow> bool" where
  "connects L OldSnap NewSnap \<longleftrightarrow>
     replayEdits (Buffer OldSnap) (L OldSnap NewSnap) = Some (Buffer NewSnap)"

text \<open>
  An offset is inside the removed span of some edit of the chain: carried through the edits
  before edit \<open>i\<close> by the forward callback, it is part of the text that edit \<open>i\<close> removes.
\<close>

definition insideRemovedSpan :: "ReplaceImmutableTextUpdate list \<Rightarrow> unsigned \<Rightarrow> bool" where
  "insideRemovedSpan Upds Offset \<longleftrightarrow>
     (\<exists>i \<in> {0..<length Upds}.
        case foreachReplace (take i Upds) newerCallback Offset of
          (Completed, Offset') \<Rightarrow> Completed \<and> partOfRemovedText (Upds ! i) Offset')"

text \<open>
  The forward remap as the specification words it, on mathematical integers and on edits
  given as (start, removed length, inserted length): an edit whose removed span
  \<open>[start, start + removedLen)\<close> contains the offset fails the remap; an edit entirely at or
  before the offset adds \<open>insertedLen - removedLen\<close>; other edits leave the offset alone.
\<close>

fun forwardRemap_spec :: "int \<Rightarrow> (int \<times> int \<times> int) list \<Rightarrow> int option" where
  "forwardRemap_spec offset [] = Some offset"
| "forwardRemap_spec offset ((start, removedLen, insertedLen) # edits) =
     (if start \<le> offset \<and> offset < start + removedLen then None
      else if start + removedLen \<le> offset
        then forwardRemap_spec (offset + (insertedLen - removedLen)) edits
      else forwardRemap_spec offset edits)"

definition editRecord :: "ReplaceImmutableTextUpdate \<Rightarrow> int \<times> int \<times> int" where
  "editRecord Upd = (uint (ByteOffset Upd), uint (Length Upd), int (length (Text Upd)))"

section \<open>Analyses, symbol tokens and the language support\<close>

type_synonym SourceLoc = nat
type_synonym ByteRange = "unsigned \<times> unsigned"

text \<open>
  Modelled from the spec: the declaration classes \<^verbatim>\<open>ConstructorDecl\<close>,
  \<^verbatim>\<open>DestructorDecl\<close> and \<^verbatim>\<open>SubscriptDecl\<close> that \<^verbatim>\<open>isa<>\<close> tests for; every other
  class is \<open>OtherDecl\<close>.
\<close>

datatype DeclKind = ConstructorDecl | DestructorDecl | SubscriptDecl | OtherDecl

text \<open>
  Modelled from the spec: what a \<^verbatim>\<open>SourceEntityWalker\<close> visits.  A declaration site
  (\<^verbatim>\<open>walkToDeclPre(D, Range)\<close>) or a reference site
  (\<^verbatim>\<open>visitDeclReference(D, Range, CtorTyRef, T)\<close>), each with the byte offset and byte
  length of its range.  Declarations are compared by pointer; a pointer is a number here.
\<close>

datatype Entity =
    DeclSite nat ByteRange
  | RefSite nat "nat option" ByteRange

text \<open>
  Modelled from the spec: a \<^verbatim>\<open>ValueDecl\<close>, by the attributes the code reads:
  its identity, its class, \<^verbatim>\<open>AvailableAttr::isUnavailable(VD)\<close>,
  \<^verbatim>\<open>VD->getName().isOperator()\<close>, the entities of
  \<^verbatim>\<open>VD->getDeclContext()->getLocalContext()\<close> (\<open>None\<close> for a null context), what
  \<^verbatim>\<open>getLocationInfo\<close> reports (location and file name), and the strings that the external
  printers produce for it.
\<close>

record ValueDecl =
  DeclId :: nat
  Kind :: DeclKind
  isUnavailable :: bool
  isOperator :: bool
  LocalContext :: "Entity list option"
  LocationInfo :: "ByteRange option"
  LocationFile :: string
  DisplayName :: string
  USRString :: string
  TypeString :: string
  OwningModule :: string

record ModuleEntity =
  ModName :: string
  ModFullName :: string

text \<open>
  Modelled from the spec: the symbol token \<^verbatim>\<open>SemaToken\<close>.  It names a declaration
  (\<^verbatim>\<open>ValueD\<close>, with \<^verbatim>\<open>CtorTyRef\<close> set for a constructor reference through a type) or a
  module (\<^verbatim>\<open>Mod\<close>), and it is invalid when it names neither.
\<close>

record SemaToken =
  ValueD :: "ValueDecl option"
  CtorTyRef :: "ValueDecl option"
  Mod :: "ModuleEntity option"
  IsRef :: bool
  IsKeywordArgument :: bool

definition isInvalid :: "SemaToken \<Rightarrow> bool" where
  "isInvalid SemaTok \<longleftrightarrow> ValueD SemaTok = None \<and> Mod SemaTok = None"

text \<open>
  Modelled from the spec: an analysis (\<^verbatim>\<open>ASTUnit\<close>) is opaque except for
  \<^verbatim>\<open>Lexer::getLocForStartOfToken\<close> on its primary buffer (\<open>None\<close> is the invalid location),
  \<^verbatim>\<open>SemaLocResolver::resolve\<close>, and the entities of its primary source file in walk
  order.
\<close>

record ASTUnit =
  getLocForStartOfToken :: "unsigned \<Rightarrow> SourceLoc option"
  resolve :: "SourceLoc \<Rightarrow> SemaToken"
  PrimarySourceFile :: "Entity list"

text \<open>
  Modelled from the spec: what the analysis broker (\<^verbatim>\<open>SwiftASTManager\<close>) holds when it is
  asked for an analysis: possibly an existing analysis with the snapshots it was built
  from, and the outcome that a fresh build would have.
\<close>

datatype BuildResult = Built ASTUnit | BuildCancelled | BuildFailed string

record ASTRequest =
  ExistingAST :: "(ASTUnit \<times> ImmutableTextSnapshot list) option"
  FreshAST :: BuildResult

record EditorDocument =
  getLatestSnapshot :: "ImmutableTextSnapshot option"

text \<open>
  Modelled from the spec: the part of \<^verbatim>\<open>SwiftLangSupport\<close> that the queries use: the open
  editor documents by path, the edit log, the lexer (\<open>getTokenAt text offset\<close> is the text
  of the token at that offset, empty if there is none), and the broker, whose \<open>n\<close>-th
  request sees \<open>ASTManager Lang n\<close>.
\<close>

record SwiftLangSupport =
  findByPath :: "string \<Rightarrow> EditorDocument option"
  EditLog :: edit_log
  getTokenAt :: "string \<Rightarrow> unsigned \<Rightarrow> string"
  ASTManager :: "nat \<Rightarrow> ASTRequest"

text \<open>
  The response record.  Of the string fields only four are kept; the others are filled from
  external printers in the same way.  \<open>emptyCursorInfo\<close> is the default-constructed
  \<^verbatim>\<open>CursorInfo\<close> of \<^verbatim>\<open>Receiver({})\<close>.
\<close>

record CursorInfo =
  Name :: string
  USR :: string
  TypeName :: string
  ModuleName :: string
  DeclarationLoc :: "ByteRange option"
  Filename :: string
  IsCancelled :: bool

definition emptyCursorInfo :: CursorInfo where
  "emptyCursorInfo =
     \<lparr>Name = [], USR = [], TypeName = [], ModuleName = [], DeclarationLoc = None,
      Filename = [], IsCancelled = False\<rparr>"

text \<open>
  The observable state of one query: how many times the broker was asked, how many fresh
  builds it started, and the responses handed to \<^verbatim>\<open>Receiver\<close>, in order.
\<close>

record QueryState =
  Calls :: nat
  Builds :: nat
  Delivered :: "CursorInfo list"

definition Receiver :: "CursorInfo \<Rightarrow> QueryState \<Rightarrow> QueryState" where
  "Receiver Info st = st\<lparr>Delivered := Delivered st @ [Info]\<rparr>"

definition getSourceToken :: "SwiftLangSupport \<Rightarrow> unsigned \<Rightarrow> ImmutableTextSnapshot \<Rightarrow> string" where
  "getSourceToken Lang Offset Snap = getTokenAt Lang (Buffer Snap) Offset"

text \<open>
  \<^verbatim>\<open>if (auto EditorDoc = findByPath(File)) Snap = EditorDoc->getLatestSnapshot();\<close> with
  \<open>None\<close> for a null snapshot.
\<close>

definition latestSnapshotOf :: "SwiftLangSupport \<Rightarrow> string \<Rightarrow> ImmutableTextSnapshot option" where
  "latestSnapshotOf Lang File =
     (case findByPath Lang File of
        Some EditorDoc \<Rightarrow> getLatestSnapshot EditorDoc
      | None \<Rightarrow> None)"

section \<open>\<^verbatim>\<open>tryRemappingLocToLatestSnapshot\<close> and \<^verbatim>\<open>passCursorInfoForDecl\<close>\<close>

text \<open>The loop over \<^verbatim>\<open>PreviousASTSnaps\<close>; falling out of it returns the range unchanged.\<close>

fun remapInSnapshots ::
  "SwiftLangSupport \<Rightarrow> ByteRange \<Rightarrow> ImmutableTextSnapshot \<Rightarrow> ImmutableTextSnapshot list \<Rightarrow>
   ByteRange option"
where
  "remapInSnapshots Lang Rng LatestSnap [] = Some Rng"
| "remapInSnapshots Lang Rng LatestSnap (PrevSnap # PrevSnaps) =
     (if isFromSameBuffer PrevSnap LatestSnap then
        (if Stamp PrevSnap = Stamp LatestSnap then Some Rng
         else
           (case mapOffsetToNewerSnapshot (EditLog Lang) (fst Rng) PrevSnap LatestSnap of
              None \<Rightarrow> None
            | Some OptBegin \<Rightarrow>
                (case mapOffsetToNewerSnapshot (EditLog Lang) (fst Rng + snd Rng)
                        PrevSnap LatestSnap of
                   None \<Rightarrow> None
                 | Some OptEnd \<Rightarrow> Some (OptBegin, OptEnd - OptBegin))))
      else remapInSnapshots Lang Rng LatestSnap PrevSnaps)"

definition tryRemappingLocToLatestSnapshot ::
  "SwiftLangSupport \<Rightarrow> ByteRange \<Rightarrow> string \<Rightarrow> ImmutableTextSnapshot list \<Rightarrow> ByteRange option"
where
  "tryRemappingLocToLatestSnapshot Lang Rng File PrevSnaps =
     (case latestSnapshotOf Lang File of
        None \<Rightarrow> Some Rng
      | Some LatestSnap \<Rightarrow> remapInSnapshots Lang Rng LatestSnap PrevSnaps)"

text \<open>Both functions return \<open>True\<close> for failure, paired with the state after their deliveries.\<close>

definition passCursorInfoForModule :: "ModuleEntity \<Rightarrow> QueryState \<Rightarrow> bool \<times> QueryState" where
  "passCursorInfoForModule M st =
     (False, Receiver (emptyCursorInfo\<lparr>Name := ModName M, ModuleName := ModFullName M\<rparr>) st)"

definition passCursorInfoForDecl ::
  "SwiftLangSupport \<Rightarrow> ValueDecl \<Rightarrow> ImmutableTextSnapshot list \<Rightarrow> QueryState \<Rightarrow> bool \<times> QueryState"
where
  "passCursorInfoForDecl Lang VD PrevSnaps st =
     (if isUnavailable VD then (True, st)
      else
        let File = LocationFile VD;
            Remapped =
              (case LocationInfo VD of
                 None \<Rightarrow> Some None
               | Some Rng \<Rightarrow>
                   (case tryRemappingLocToLatestSnapshot Lang Rng File PrevSnaps of
                      None \<Rightarrow> None
                    | Some Rng' \<Rightarrow> Some (Some Rng')))
        in case Remapped of
             None \<Rightarrow> (True, st)
           | Some DeclarationLoc' \<Rightarrow>
               (False,
                Receiver \<lparr>Name = DisplayName VD, USR = USRString VD, TypeName = TypeString VD,
                          ModuleName = OwningModule VD, DeclarationLoc = DeclarationLoc',
                          Filename = File, IsCancelled = False\<rparr> st))"

section \<open>\<^verbatim>\<open>findRelatedIdentifiersInFile\<close>\<close>

record RelatedIdScanner =
  Dcl :: nat
  Ranges :: "ByteRange list"
  Cancelled :: bool

definition passId :: "RelatedIdScanner \<Rightarrow> ByteRange \<Rightarrow> bool \<times> RelatedIdScanner" where
  "passId S Rng = (\<not> Cancelled S, S\<lparr>Ranges := Ranges S @ [Rng]\<rparr>)"

definition walkToDeclPre :: "RelatedIdScanner \<Rightarrow> nat \<Rightarrow> ByteRange \<Rightarrow> bool \<times> RelatedIdScanner" where
  "walkToDeclPre S D Rng =
     (if Cancelled S then (False, S)
      else if D = Dcl S then passId S Rng
      else (True, S))"

definition visitDeclReference ::
  "RelatedIdScanner \<Rightarrow> nat \<Rightarrow> ByteRange \<Rightarrow> nat option \<Rightarrow> bool \<times> RelatedIdScanner"
where
  "visitDeclReference S D Rng CtorTyRef' =
     (if Cancelled S then (False, S)
      else
        let D' = (case CtorTyRef' of Some T \<Rightarrow> T | None \<Rightarrow> D)
        in if D' = Dcl S then passId S Rng else (True, S))"

text \<open>
  Modelled from the spec: \<^verbatim>\<open>SourceEntityWalker::walk\<close> visits every declaration site and
  every reference site of the scope in order and stops as soon as a visit returns the stop
  signal.
\<close>

fun walk :: "Entity list \<Rightarrow> RelatedIdScanner \<Rightarrow> RelatedIdScanner" where
  "walk [] S = S"
| "walk (DeclSite D Rng # Es) S =
     (case walkToDeclPre S D Rng of
        (True, S') \<Rightarrow> walk Es S'
      | (False, S') \<Rightarrow> S')"
| "walk (RefSite D CtorTyRef' Rng # Es) S =
     (case visitDeclReference S D Rng CtorTyRef' of
        (True, S') \<Rightarrow> walk Es S'
      | (False, S') \<Rightarrow> S')"

text \<open>
  What the scan is to record at one site: the byte range, if the declared or referenced
  entity (for a constructor reference, the type it resolves to) is the target.
\<close>

fun occurrenceOf :: "nat \<Rightarrow> Entity \<Rightarrow> ByteRange option" where
  "occurrenceOf Target (DeclSite D Rng) = (if D = Target then Some Rng else None)"
| "occurrenceOf Target (RefSite D CtorTyRef' Rng) =
     (if (case CtorTyRef' of Some T \<Rightarrow> T | None \<Rightarrow> D) = Target then Some Rng else None)"

record RelatedIdentsInfo =
  RelatedRanges :: "ByteRange list"
  RelatedIsCancelled :: bool

text \<open>The lambda \<^verbatim>\<open>Action\<close>; its result is the vector \<^verbatim>\<open>Ranges\<close> when it returns.\<close>

definition Action :: "unsigned \<Rightarrow> ASTUnit \<Rightarrow> ByteRange list" where
  "Action Offset AstUnit =
     (case getLocForStartOfToken AstUnit Offset of
        None \<Rightarrow> []
      | Some Loc \<Rightarrow>
          (let SemaTok = resolve AstUnit Loc
           in if isInvalid SemaTok then []
              else if IsKeywordArgument SemaTok then []
              else
                (case (case CtorTyRef SemaTok of Some T \<Rightarrow> Some T | None \<Rightarrow> ValueD SemaTok) of
                   None \<Rightarrow> []
                 | Some VD \<Rightarrow>
                     if \<not> IsRef SemaTok \<and>
                        (Kind VD = ConstructorDecl \<or> Kind VD = DestructorDecl \<or>
                         Kind VD = SubscriptDecl)
                     then []
                     else if isOperator VD then []
                     else
                       Ranges
                        (walk (case LocalContext VD of
                                 Some LocalDC \<Rightarrow> LocalDC
                               | None \<Rightarrow> PrimarySourceFile AstUnit)
                           \<lparr>Dcl = DeclId VD, Ranges = [], Cancelled = False\<rparr>))))"

definition RelatedIdConsumer_handlePrimaryAST ::
  "unsigned \<Rightarrow> ASTUnit \<Rightarrow> RelatedIdentsInfo list \<Rightarrow> RelatedIdentsInfo list"
where
  "RelatedIdConsumer_handlePrimaryAST Offset AstUnit Received =
     Received @ [\<lparr>RelatedRanges = Action Offset AstUnit, RelatedIsCancelled = False\<rparr>]"

section \<open>Concrete snapshots and edit logs\<close>

text \<open>The document "let x = 1" edited to "let xy = 1" by inserting "y" at offset 5.\<close>

definition OldSnap1 :: ImmutableTextSnapshot where
  "OldSnap1 = \<lparr>BufferId = 0, Stamp = 1, Buffer = ''let x = 1''\<rparr>"

definition NewSnap1 :: ImmutableTextSnapshot where
  "NewSnap1 = \<lparr>BufferId = 0, Stamp = 2, Buffer = ''let xy = 1''\<rparr>"

definition Log1 :: edit_log where
  "Log1 = (\<lambda>A B. [\<lparr>ByteOffset = 5, Length = 0, Text = ''y''\<rparr>])"

text \<open>The opposite edit: "let xy = 1" edited to "let x = 1" by removing the "y" at offset 5.\<close>

definition OldSnap2 :: ImmutableTextSnapshot where
  "OldSnap2 = \<lparr>BufferId = 0, Stamp = 2, Buffer = ''let xy = 1''\<rparr>"

definition NewSnap2 :: ImmutableTextSnapshot where
  "NewSnap2 = \<lparr>BufferId = 0, Stamp = 3, Buffer = ''let x = 1''\<rparr>"

definition Log2 :: edit_log where
  "Log2 = (\<lambda>A B. [\<lparr>ByteOffset = 5, Length = 1, Text = []\<rparr>])"

text \<open>
  A lexer that takes the text up to the next blank as the token, a variable \<open>x\<close>
  declared at bytes 4 to 5 of the file "a.swift", an analysis that resolves every offset to
  one given token, and two language-support states: in \<open>LangA\<close> the document "a.swift" has
  the latest snapshot "let xy = 1" after the insertion, in \<open>LangB\<close> it has "let x = 1" after
  the removal.  The broker of both holds, at the first request only, an existing analysis
  built from the older snapshot, in which \<open>x\<close> is marked unavailable; a fresh build gives
  the same analysis.
\<close>

definition wordAt :: "string \<Rightarrow> unsigned \<Rightarrow> string" where
  "wordAt str Offset = takeWhile (\<lambda>c. c \<noteq> CHR '' '') (drop (unat Offset) str)"

definition DeclX :: ValueDecl where
  "DeclX = \<lparr>DeclId = 10, Kind = OtherDecl, isUnavailable = False, isOperator = False,
            LocalContext = None, LocationInfo = Some (4, 1), LocationFile = ''a.swift'',
            DisplayName = ''x'', USRString = ''s:1x'', TypeString = ''Int'',
            OwningModule = ''main''\<rparr>"

definition tokenFor :: "ValueDecl \<Rightarrow> SemaToken" where
  "tokenFor D = \<lparr>ValueD = Some D, CtorTyRef = None, Mod = None, IsRef = True,
                 IsKeywordArgument = False\<rparr>"

definition ASTFor :: "SemaToken \<Rightarrow> ASTUnit" where
  "ASTFor Tok = \<lparr>getLocForStartOfToken = (\<lambda>Offset. Some (unat Offset)),
                resolve = (\<lambda>Loc. Tok),
                PrimarySourceFile = [DeclSite 10 (4, 1), RefSite 11 None (9, 1), RefSite 10 None (14, 1)]\<rparr>"

definition LangA :: SwiftLangSupport where
  "LangA = \<lparr>findByPath = (\<lambda>File. if File = ''a.swift''
                                   then Some \<lparr>getLatestSnapshot = Some NewSnap1\<rparr> else None),
            EditLog = Log1,
            getTokenAt = wordAt,
            ASTManager = (\<lambda>n. \<lparr>ExistingAST =
                                   (if n = 0
                                    then Some (ASTFor (tokenFor (DeclX\<lparr>isUnavailable := True\<rparr>)),
                                               [OldSnap1])
                                    else None),
                                 FreshAST = Built (ASTFor (tokenFor (DeclX\<lparr>isUnavailable := True\<rparr>)))\<rparr>)\<rparr>"

definition LangB :: SwiftLangSupport where
  "LangB = LangA\<lparr>findByPath := (\<lambda>File. if File = ''a.swift''
                                   then Some \<lparr>getLatestSnapshot = Some NewSnap2\<rparr> else None),
                 EditLog := Log2\<rparr>"

definition Query0 :: QueryState where
  "Query0 = \<lparr>Calls = 0, Builds = 0, Delivered = []\<rparr>"

section \<open>\<^verbatim>\<open>resolveCursor\<close> and its \<^verbatim>\<open>CursorInfoConsumer\<close>\<close>

text \<open>The mutable members of the consumer; \<open>ConsumerOffset\<close> is its member \<^verbatim>\<open>Offset\<close>.\<close>

record CursorInfoConsumer =
  InputFile :: string
  ConsumerOffset :: unsigned
  TryExistingAST :: bool
  PreviousASTSnaps :: "ImmutableTextSnapshot list"

text \<open>The lambda \<^verbatim>\<open>mappedBackOffset\<close>: the first snapshot of the same buffer decides.\<close>

fun mappedBackOffset ::
  "SwiftLangSupport \<Rightarrow> unsigned \<Rightarrow> ImmutableTextSnapshot \<Rightarrow> ImmutableTextSnapshot list \<Rightarrow>
   unsigned option"
where
  "mappedBackOffset Lang Offset InputSnap [] = None"
| "mappedBackOffset Lang Offset InputSnap (Snap # Snapshots) =
     (if isFromSameBuffer Snap InputSnap then
        (if Stamp Snap = Stamp InputSnap then Some Offset
         else
           (case mapOffsetToOlderSnapshot (EditLog Lang) Offset InputSnap Snap of
              None \<Rightarrow> None
            | Some OptOffset \<Rightarrow>
                (let NewTok = getSourceToken Lang Offset InputSnap
                 in if NewTok = [] then None
                    else if NewTok = getSourceToken Lang OptOffset Snap then Some OptOffset
                    else None)))
      else mappedBackOffset Lang Offset InputSnap Snapshots)"

text \<open>Returns the answer and the consumer with its members as the call leaves them.\<close>

definition canUseASTWithSnapshots ::
  "SwiftLangSupport \<Rightarrow> CursorInfoConsumer \<Rightarrow> ImmutableTextSnapshot list \<Rightarrow>
   bool \<times> CursorInfoConsumer"
where
  "canUseASTWithSnapshots Lang Consumer Snapshots =
     (if \<not> TryExistingAST Consumer then (False, Consumer)
      else
        (case latestSnapshotOf Lang (InputFile Consumer) of
           None \<Rightarrow> (False, Consumer)
         | Some InputSnap \<Rightarrow>
             (case mappedBackOffset Lang (ConsumerOffset Consumer) InputSnap Snapshots of
                Some OldOffset \<Rightarrow>
                  (True, Consumer\<lparr>ConsumerOffset := OldOffset,
                                   PreviousASTSnaps := PreviousASTSnaps Consumer @ Snapshots\<rparr>)
              | None \<Rightarrow> (False, Consumer))))"

definition cancelled :: "QueryState \<Rightarrow> QueryState" where
  "cancelled st = Receiver (emptyCursorInfo\<lparr>IsCancelled := True\<rparr>) st"

definition failed :: "string \<Rightarrow> QueryState \<Rightarrow> QueryState" where
  "failed Error st = Receiver emptyCursorInfo st"

lemma canUseASTWithSnapshots_fresh:
  "\<not> TryExistingAST Consumer \<Longrightarrow>
   canUseASTWithSnapshots Lang Consumer Snapshots = (False, Consumer)"
  by (simp add: canUseASTWithSnapshots_def)

lemma canUseASTWithSnapshots_rejected:
  "canUseASTWithSnapshots Lang Consumer Snapshots = (False, Consumer') \<Longrightarrow> Consumer' = Consumer"
  by (auto simp: canUseASTWithSnapshots_def split: if_splits option.splits)

lemma canUseASTWithSnapshots_accepted:
  "canUseASTWithSnapshots Lang Consumer Snapshots = (True, Consumer') \<Longrightarrow>
   TryExistingAST Consumer"
  by (auto simp: canUseASTWithSnapshots_def split: if_splits option.splits)

text \<open>
  \<^verbatim>\<open>resolveCursor\<close> creates the consumer and hands it to the broker, which calls back into
  \<^verbatim>\<open>handlePrimaryAST\<close>, which may call \<^verbatim>\<open>resolveCursor\<close> again: the three are mutually
  recursive.

  Modelled from the spec: \<^verbatim>\<open>processASTAsync\<close>.  The broker delivers exactly one of: an
  existing analysis, after the consumer has accepted the snapshots it was built from; a
  freshly built analysis; a cancellation; a failure.  A rejected existing analysis leads
  to a fresh build.  \<open>Calls\<close> counts the requests and \<open>Builds\<close> the fresh builds that
  were started, whatever their outcome.

  In \<^verbatim>\<open>handlePrimaryAST\<close> a valid token that names no module names a declaration, so the
  branch for a missing declaration is never taken; it is closed with the empty response.
\<close>

function resolveCursor ::
    "SwiftLangSupport \<Rightarrow> string \<Rightarrow> unsigned \<Rightarrow> bool \<Rightarrow> QueryState \<Rightarrow> QueryState"
  and processASTAsync ::
    "SwiftLangSupport \<Rightarrow> CursorInfoConsumer \<Rightarrow> QueryState \<Rightarrow> QueryState"
  and handlePrimaryAST ::
    "SwiftLangSupport \<Rightarrow> CursorInfoConsumer \<Rightarrow> ASTUnit \<Rightarrow> QueryState \<Rightarrow> QueryState"
where
  "resolveCursor Lang File Offset TryExisting st =
     processASTAsync Lang
       \<lparr>InputFile = File, ConsumerOffset = Offset, TryExistingAST = TryExisting,
        PreviousASTSnaps = []\<rparr> st"
| "processASTAsync Lang Consumer st =
     (let Request = ASTManager Lang (Calls st);
          st1 = st\<lparr>Calls := Calls st + 1\<rparr>;
          Negotiated =
            (case ExistingAST Request of
               None \<Rightarrow> (None, Consumer)
             | Some (AstUnit, Snapshots) \<Rightarrow>
                 (case canUseASTWithSnapshots Lang Consumer Snapshots of
                    (True, Consumer') \<Rightarrow> (Some AstUnit, Consumer')
                  | (False, Consumer') \<Rightarrow> (None, Consumer')))
      in case Negotiated of
           (Some AstUnit, Consumer') \<Rightarrow> handlePrimaryAST Lang Consumer' AstUnit st1
         | (None, Consumer') \<Rightarrow>
             (let st2 = st1\<lparr>Builds := Builds st1 + 1\<rparr>
              in case FreshAST Request of
                   Built AstUnit \<Rightarrow> handlePrimaryAST Lang Consumer' AstUnit st2
                 | BuildCancelled \<Rightarrow> cancelled st2
                 | BuildFailed Error \<Rightarrow> failed Error st2))"
| "handlePrimaryAST Lang Consumer AstUnit st =
     (case getLocForStartOfToken AstUnit (ConsumerOffset Consumer) of
        None \<Rightarrow> Receiver emptyCursorInfo st
      | Some Loc \<Rightarrow>
          (let SemaTok = resolve AstUnit Loc
           in if isInvalid SemaTok then Receiver emptyCursorInfo st
              else
                (case Mod SemaTok of
                   Some M \<Rightarrow> snd (passCursorInfoForModule M st)
                 | None \<Rightarrow>
                     (case (case CtorTyRef SemaTok of Some T \<Rightarrow> Some T | None \<Rightarrow> ValueD SemaTok) of
                        None \<Rightarrow> Receiver emptyCursorInfo st
                      | Some VD \<Rightarrow>
                          (case passCursorInfoForDecl Lang VD (PreviousASTSnaps Consumer) st of
                             (False, st') \<Rightarrow> st'
                           | (True, st') \<Rightarrow>
                               (if PreviousASTSnaps Consumer \<noteq> []
                                then resolveCursor Lang (InputFile Consumer)
                                       (ConsumerOffset Consumer) False st'
                                else Receiver emptyCursorInfo st'))))))"
  by pat_completeness auto

text \<open>
  The recursion ends: \<^verbatim>\<open>handlePrimaryAST\<close> retries only with a non-empty
  \<^verbatim>\<open>PreviousASTSnaps\<close>, which only a consumer created with \<^verbatim>\<open>TryExistingAST\<close> can have,
  and the retry creates its consumer without it.
\<close>

termination resolveCursor
  apply (relation "measure (\<lambda>x. case x of
            Inl (Lang, File, Offset, TryExisting, st) \<Rightarrow> if TryExisting then 6 else 2
          | Inr (Inl (Lang, Consumer, st)) \<Rightarrow>
              if TryExistingAST Consumer \<or> PreviousASTSnaps Consumer \<noteq> [] then 5 else 1
          | Inr (Inr (Lang, Consumer, AstUnit, st)) \<Rightarrow>
              if PreviousASTSnaps Consumer \<noteq> [] then 4 else (0::nat))")
      apply simp
     apply simp
    apply (auto split: option.splits if_splits prod.splits bool.splits
        dest: canUseASTWithSnapshots_rejected canUseASTWithSnapshots_accepted)
  done

declare resolveCursor.simps [simp del] processASTAsync.simps [simp del]
  handlePrimaryAST.simps [simp del]

section \<open>Machine arithmetic of one remap step\<close>

lemma ucast_down_of_nat: "(ucast (word_of_nat k :: size_t) :: unsigned) = word_of_nat k"
  by (simp add: unsigned_of_nat word_of_nat_eq_iff)

lemma ucast_down_of_int: "(ucast (word_of_int k :: size_t) :: unsigned) = word_of_int k"
  by (simp add: unsigned_of_int word_of_int_eq_iff)

lemma unat_of_nat32: "k < 2 ^ 32 \<Longrightarrow> unat (word_of_nat k :: unsigned) = k"
  by (simp add: unat_of_nat)

lemma unat_of_nat64: "k < 2 ^ 64 \<Longrightarrow> unat (word_of_nat k :: size_t) = k"
  by (simp add: unat_of_nat)

lemma unat_ucast_32_64: "unat (ucast (w :: unsigned) :: size_t) = unat w"
proof -
  have "unat w < 2 ^ 32" using unsigned_less [of w] by simp
  then have "unat w < 2 ^ 64" by simp
  then show ?thesis by (simp add: unsigned_ucast_eq take_bit_nat_eq_self)
qed

lemma redoUpdate_of_nat:
  "redoUpdate Upd Offset = word_of_nat (unat Offset + length (Text Upd)) - Length Upd"
proof -
  have "(ucast Offset :: size_t) + StringRef_size (Text Upd) =
        word_of_nat (unat Offset + length (Text Upd))"
    by (simp add: StringRef_size_def)
  then show ?thesis
    by (simp only: redoUpdate_def Let_def ucast_down_of_nat)
qed

lemma unat_redoUpdate:
  assumes "unat (Length Upd) \<le> unat Offset + length (Text Upd)"
    and "unat Offset + length (Text Upd) - unat (Length Upd) < 2 ^ 32"
  shows "unat (redoUpdate Upd Offset) = unat Offset + length (Text Upd) - unat (Length Upd)"
proof -
  let ?k = "unat Offset + length (Text Upd) - unat (Length Upd)"
  have "(word_of_nat (unat Offset + length (Text Upd)) :: unsigned) = word_of_nat ?k + Length Upd"
    using assms(1) by simp
  then have "redoUpdate Upd Offset = word_of_nat ?k"
    by (simp add: redoUpdate_of_nat)
  then show ?thesis using assms(2)
    by (simp only: unat_of_nat32)
qed

lemma undoUpdate_of_nat:
  "undoUpdate Upd Offset = Offset + Length Upd - word_of_nat (length (Text Upd))"
proof -
  let ?y = "Offset + Length Upd"
  have "(ucast ?y :: size_t) - StringRef_size (Text Upd) =
        word_of_int (uint ?y - int (length (Text Upd)))"
    by (simp add: StringRef_size_def)
  then have "undoUpdate Upd Offset = word_of_int (uint ?y - int (length (Text Upd)))"
    by (simp only: undoUpdate_def Let_def ucast_down_of_int)
  then show ?thesis by simp
qed

lemma unat_undoUpdate:
  assumes "length (Text Upd) \<le> unat Offset + unat (Length Upd)"
    and "unat Offset + unat (Length Upd) - length (Text Upd) < 2 ^ 32"
  shows "unat (undoUpdate Upd Offset) = unat Offset + unat (Length Upd) - length (Text Upd)"
proof -
  let ?k = "unat Offset + unat (Length Upd) - length (Text Upd)"
  have "Offset + Length Upd = word_of_nat (?k + length (Text Upd))"
    using assms(1) by simp
  then have "undoUpdate Upd Offset = word_of_nat ?k"
    by (simp add: undoUpdate_of_nat)
  then show ?thesis using assms(2)
    by (simp only: unat_of_nat32)
qed

lemma partOfRemovedText_nat:
  assumes "unat (ByteOffset Upd) + unat (Length Upd) < 2 ^ 32"
  shows "partOfRemovedText Upd Offset \<longleftrightarrow>
    unat (ByteOffset Upd) \<le> unat Offset \<and> unat Offset < unat (ByteOffset Upd) + unat (Length Upd)"
proof -
  have "unat (ByteOffset Upd + Length Upd) = unat (ByteOffset Upd) + unat (Length Upd)"
    using assms by (simp add: unat_add_lem [THEN iffD1])
  then show ?thesis
    by (simp add: partOfRemovedText_def word_le_nat_alt word_less_nat_alt)
qed

lemma partOfInsertedText_nat:
  assumes "length (Text Upd) < 2 ^ 32"
  shows "partOfInsertedText Upd Offset \<longleftrightarrow>
    unat (ByteOffset Upd) \<le> unat Offset \<and> unat Offset < unat (ByteOffset Upd) + length (Text Upd)"
proof -
  have b: "unat (ByteOffset Upd) < 2 ^ 32"
    using unsigned_less [of "ByteOffset Upd"] by simp
  have "(ucast (ByteOffset Upd) :: size_t) + StringRef_size (Text Upd) =
        word_of_nat (unat (ByteOffset Upd) + length (Text Upd))"
    by (simp add: StringRef_size_def)
  moreover have "unat (word_of_nat (unat (ByteOffset Upd) + length (Text Upd)) :: size_t) =
     unat (ByteOffset Upd) + length (Text Upd)"
    using assms b by (intro unat_of_nat64) simp
  ultimately show ?thesis
    by (simp add: partOfInsertedText_def word_le_nat_alt word_less_nat_alt unat_ucast_32_64)
qed

lemma partOfRemovedText_start:
  assumes "unat (ByteOffset Upd) + unat (Length Upd) < 2 ^ 32"
  shows "partOfRemovedText Upd (ByteOffset Upd) \<longleftrightarrow> Length Upd \<noteq> 0"
  by (simp add: partOfRemovedText_nat [OF assms] unat_gt_0)

lemma partOfInsertedText_start:
  assumes "length (Text Upd) < 2 ^ 32"
  shows "partOfInsertedText Upd (ByteOffset Upd) \<longleftrightarrow> Text Upd \<noteq> []"
  by (simp add: partOfInsertedText_nat [OF assms])

section \<open>One edit on a text\<close>

lemma length_replaceText:
  "unat (ByteOffset Upd) + unat (Length Upd) \<le> length str \<Longrightarrow>
   length (replaceText Upd str) + unat (Length Upd) = length str + length (Text Upd)"
  by (simp add: replaceText_def)

lemma replayEdits_bound: "replayEdits str Upds = Some str' \<Longrightarrow> length str < 2 ^ 32"
  by (cases Upds) (simp_all split: if_splits)

lemma Text_bound:
  assumes "unat (ByteOffset Upd) + unat (Length Upd) \<le> length str"
    and "length (replaceText Upd str) < 2 ^ 32"
  shows "length (Text Upd) < 2 ^ 32"
  using length_replaceText [OF assms(1)] assms by linarith

lemma newer_step_le:
  assumes "unat (ByteOffset Upd) + unat (Length Upd) < 2 ^ 32"
    and "\<not> partOfRemovedText Upd Offset"
  shows "ByteOffset Upd \<le> Offset \<longleftrightarrow> unat (ByteOffset Upd) + unat (Length Upd) \<le> unat Offset"
  using assms(2) by (auto simp: partOfRemovedText_nat [OF assms(1)] word_le_nat_alt)

lemma newer_step_unat:
  assumes fit: "unat (ByteOffset Upd) + unat (Length Upd) \<le> length str"
    and len: "length str < 2 ^ 32"
    and len': "length (replaceText Upd str) < 2 ^ 32"
    and valid: "unat Offset \<le> length str"
    and ge: "unat (ByteOffset Upd) + unat (Length Upd) \<le> unat Offset"
  shows "unat (redoUpdate Upd Offset) = unat Offset + length (Text Upd) - unat (Length Upd)"
  using length_replaceText [OF fit] len' valid ge by (intro unat_redoUpdate) linarith+

text \<open>
  A step forward over an edit that does not remove the offset keeps the offset inside the
  new text, lands outside the inserted text, and is undone by the step backward.
\<close>

lemma step_roundtrip:
  assumes fit: "unat (ByteOffset Upd) + unat (Length Upd) \<le> length str"
    and len: "length str < 2 ^ 32"
    and len': "length (replaceText Upd str) < 2 ^ 32"
    and valid: "unat Offset \<le> length str"
    and notin: "\<not> partOfRemovedText Upd Offset"
    and O': "Offset' = (if ByteOffset Upd \<le> Offset then redoUpdate Upd Offset else Offset)"
  shows "unat Offset' \<le> length (replaceText Upd str) \<and>
     \<not> partOfInsertedText Upd Offset' \<and>
     (if ByteOffset Upd \<le> Offset' then undoUpdate Upd Offset' else Offset') = Offset"
proof -
  let ?b = "unat (ByteOffset Upd)" and ?l = "unat (Length Upd)" and ?n = "length (Text Upd)"
  let ?o = "unat Offset"
  have L: "length (replaceText Upd str) + ?l = length str + ?n"
    using fit by (rule length_replaceText)
  have n: "?n < 2 ^ 32" using fit len' by (rule Text_bound)
  have bl: "?b + ?l < 2 ^ 32" using fit len by linarith
  show ?thesis
  proof (cases "ByteOffset Upd \<le> Offset")
    case True
    then have ge: "?b + ?l \<le> ?o" using newer_step_le [OF bl notin] by simp
    have u: "unat Offset' = ?o + ?n - ?l"
      using True O' newer_step_unat [OF fit len len' valid ge] by simp
    have inside: "unat Offset' \<le> length (replaceText Upd str)"
      using u L valid by linarith
    have ge': "?b + ?n \<le> unat Offset'"
      using u ge by linarith
    then have outside: "\<not> partOfInsertedText Upd Offset'"
      by (simp add: partOfInsertedText_nat [OF n])
    have le': "ByteOffset Upd \<le> Offset'"
      using ge' by (simp add: word_le_nat_alt)
    have undo_eq: "unat Offset' + ?l - ?n = ?o"
      using u ge by linarith
    have "unat (undoUpdate Upd Offset') = unat Offset' + ?l - ?n"
      using ge' undo_eq valid len by (intro unat_undoUpdate) linarith+
    then have "unat (undoUpdate Upd Offset') = ?o"
      using undo_eq by simp
    then have "undoUpdate Upd Offset' = Offset"
      by (simp add: word_unat_eq_iff)
    then have "(if ByteOffset Upd \<le> Offset' then undoUpdate Upd Offset' else Offset') = Offset"
      using le' by simp
    with inside outside show ?thesis by blast
  next
    case False
    then have lt: "?o < ?b" by (simp add: word_le_nat_alt)
    have eq: "Offset' = Offset" using False O' by simp
    have inside: "unat Offset' \<le> length (replaceText Upd str)"
      using lt fit L unfolding eq by linarith
    have outside: "\<not> partOfInsertedText Upd Offset'"
      using lt unfolding eq by (simp add: partOfInsertedText_nat [OF n])
    have "(if ByteOffset Upd \<le> Offset' then undoUpdate Upd Offset' else Offset') = Offset"
      using False unfolding eq by simp
    with inside outside show ?thesis by blast
  qed
qed

section \<open>Replaying a chain\<close>

lemma foreachReplace_collect:
  "foreachReplace Upds (\<lambda>Upd Updates. (True, Updates @ [Upd])) acc = (True, acc @ Upds)"
  by (induction Upds arbitrary: acc) simp_all

lemma mapOffsetToOlderSnapshot_undo:
  "mapOffsetToOlderSnapshot L Offset NewSnap OldSnap = undoUpdates (rev (L OldSnap NewSnap)) Offset"
  by (simp add: mapOffsetToOlderSnapshot_def foreachReplaceUntil_def foreachReplace_collect)

lemma undoUpdates_append:
  "undoUpdates (xs @ ys) Offset =
     (case undoUpdates xs Offset of None \<Rightarrow> None | Some Offset' \<Rightarrow> undoUpdates ys Offset')"
  by (induction xs arbitrary: Offset) simp_all

lemma foreachReplace_append:
  "foreachReplace (xs @ ys) Fn s =
     (case foreachReplace xs Fn s of
        (False, s') \<Rightarrow> (False, s')
      | (True, s') \<Rightarrow> foreachReplace ys Fn s')"
  by (induction xs arbitrary: s) (auto split: prod.splits bool.splits)

lemma foreachReplace_newer_Cons:
  "foreachReplace (Upd # Upds) newerCallback Offset =
     (if partOfRemovedText Upd Offset then (False, Offset)
      else foreachReplace Upds newerCallback
             (if ByteOffset Upd \<le> Offset then redoUpdate Upd Offset else Offset))"
  by (simp add: newerCallback_def)

lemma chain_roundtrip:
  assumes "replayEdits str Upds = Some str'"
    and "unat Offset \<le> length str"
    and "foreachReplace Upds newerCallback Offset = (True, Offset')"
  shows "undoUpdates (rev Upds) Offset' = Some Offset"
  using assms
proof (induction Upds arbitrary: str Offset)
  case Nil
  then show ?case by simp
next
  case (Cons Upd Upds)
  define O1 where "O1 = (if ByteOffset Upd \<le> Offset then redoUpdate Upd Offset else Offset)"
  from Cons.prems(1) have fit: "unat (ByteOffset Upd) + unat (Length Upd) \<le> length str"
    and len: "length str < 2 ^ 32"
    and rest: "replayEdits (replaceText Upd str) Upds = Some str'"
    by (simp_all split: if_splits)
  have len': "length (replaceText Upd str) < 2 ^ 32"
    using rest by (rule replayEdits_bound)
  from Cons.prems(3) have notin: "\<not> partOfRemovedText Upd Offset"
    and run: "foreachReplace Upds newerCallback O1 = (True, Offset')"
    unfolding O1_def
    by (simp_all add: foreachReplace_newer_Cons del: foreachReplace.simps split: if_splits)
  from step_roundtrip [OF fit len len' Cons.prems(2) notin O1_def]
  have valid1: "unat O1 \<le> length (replaceText Upd str)"
    and notins: "\<not> partOfInsertedText Upd O1"
    and undo: "(if ByteOffset Upd \<le> O1 then undoUpdate Upd O1 else O1) = Offset"
    by blast+
  have "undoUpdates (rev Upds) Offset' = Some O1"
    using rest valid1 run by (rule Cons.IH)
  moreover have "undoUpdates [Upd] O1 = Some Offset"
    using notins undo by simp
  ultimately show ?case
    by (simp add: undoUpdates_append)
qed

lemma insideRemovedSpan_Nil: "\<not> insideRemovedSpan [] Offset"
  by (simp add: insideRemovedSpan_def)

lemma insideRemovedSpan_Cons:
  "insideRemovedSpan (Upd # Upds) Offset \<longleftrightarrow>
     partOfRemovedText Upd Offset \<or>
     insideRemovedSpan Upds (if ByteOffset Upd \<le> Offset then redoUpdate Upd Offset else Offset)"
  (is "?L \<longleftrightarrow> ?P \<or> ?R")
proof -
  let ?Q = "\<lambda>Us Off i. case foreachReplace (take i Us) newerCallback Off of
          (Completed, Offset') \<Rightarrow> Completed \<and> partOfRemovedText (Us ! i) Offset'"
  have "?L \<longleftrightarrow> (\<exists>i<Suc (length Upds). ?Q (Upd # Upds) Offset i)"
    by (simp add: insideRemovedSpan_def Bex_def)
  also have "\<dots> \<longleftrightarrow> ?Q (Upd # Upds) Offset 0 \<or> (\<exists>i<length Upds. ?Q (Upd # Upds) Offset (Suc i))"
    by (rule Ex_less_Suc2)
  also have "?Q (Upd # Upds) Offset 0 \<longleftrightarrow> ?P" by simp
  also have "(\<exists>i<length Upds. ?Q (Upd # Upds) Offset (Suc i)) \<longleftrightarrow> \<not> ?P \<and> ?R"
    by (auto simp add: insideRemovedSpan_def Bex_def foreachReplace_newer_Cons
        simp del: foreachReplace.simps)
  finally show ?thesis by blast
qed

lemma foreachReplace_newer_fst:
  "fst (foreachReplace Upds newerCallback Offset) \<longleftrightarrow> \<not> insideRemovedSpan Upds Offset"
  by (induction Upds arbitrary: Offset)
     (simp_all add: insideRemovedSpan_Nil insideRemovedSpan_Cons foreachReplace_newer_Cons
        del: foreachReplace.simps(2))

lemma forwardRemap_spec_outside:
  assumes "\<not> (start \<le> offset \<and> offset < start + removedLen)"
  shows "forwardRemap_spec offset ((start, removedLen, insertedLen) # edits) =
     forwardRemap_spec (if start + removedLen \<le> offset
                        then offset + (insertedLen - removedLen) else offset) edits"
  using assms by auto

lemma forward_refines_spec:
  assumes "replayEdits str Upds = Some str'"
    and "unat Offset \<le> length str"
  shows "(case foreachReplace Upds newerCallback Offset of
            (Completed, Offset') \<Rightarrow> if Completed then Some (uint Offset') else None) =
         forwardRemap_spec (uint Offset) (map editRecord Upds)"
  using assms
proof (induction Upds arbitrary: str Offset)
  case Nil
  then show ?case by simp
next
  case (Cons Upd Upds)
  define O1 where "O1 = (if ByteOffset Upd \<le> Offset then redoUpdate Upd Offset else Offset)"
  let ?b = "unat (ByteOffset Upd)" and ?l = "unat (Length Upd)" and ?n = "length (Text Upd)"
  from Cons.prems(1) have fit: "?b + ?l \<le> length str"
    and len: "length str < 2 ^ 32"
    and rest: "replayEdits (replaceText Upd str) Upds = Some str'"
    by (simp_all split: if_splits)
  have len': "length (replaceText Upd str) < 2 ^ 32"
    using rest by (rule replayEdits_bound)
  have bl: "?b + ?l < 2 ^ 32" using fit len by linarith
  have span: "partOfRemovedText Upd Offset \<longleftrightarrow>
      uint (ByteOffset Upd) \<le> uint Offset \<and> uint Offset < uint (ByteOffset Upd) + uint (Length Upd)"
    unfolding partOfRemovedText_nat [OF bl]
    using uint_nat [of "ByteOffset Upd"] uint_nat [of "Length Upd"] uint_nat [of Offset]
    by linarith
  show ?case
  proof (cases "partOfRemovedText Upd Offset")
    case True
    then show ?thesis
      using span by (simp add: foreachReplace_newer_Cons editRecord_def del: foreachReplace.simps)
  next
    case False
    from step_roundtrip [OF fit len len' Cons.prems(2) False O1_def]
    have valid1: "unat O1 \<le> length (replaceText Upd str)" by blast
    note IH = Cons.IH [OF rest valid1]
    have le: "ByteOffset Upd \<le> Offset \<longleftrightarrow> ?b + ?l \<le> unat Offset"
      using bl False by (rule newer_step_le)
    have O1: "uint O1 = (if uint (ByteOffset Upd) + uint (Length Upd) \<le> uint Offset
         then uint Offset + (int ?n - uint (Length Upd)) else uint Offset)"
    proof (cases "ByteOffset Upd \<le> Offset")
      case True
      then have ge: "?b + ?l \<le> unat Offset" using le by simp
      have "unat O1 = unat Offset + ?n - ?l"
        using True newer_step_unat [OF fit len len' Cons.prems(2) ge] by (simp add: O1_def)
      then show ?thesis
        using ge uint_nat [of "ByteOffset Upd"] uint_nat [of "Length Upd"] uint_nat [of Offset]
          uint_nat [of O1]
        by (simp only: if_True if_False split: if_splits) linarith
    next
      case False
      then have "O1 = Offset" and "\<not> ?b + ?l \<le> unat Offset"
        using le by (simp_all add: O1_def)
      then show ?thesis
        using uint_nat [of "ByteOffset Upd"] uint_nat [of "Length Upd"] uint_nat [of Offset]
        by (simp only: if_True if_False split: if_splits) linarith
    qed
    have "foreachReplace (Upd # Upds) newerCallback Offset = foreachReplace Upds newerCallback O1"
      using False by (simp add: foreachReplace_newer_Cons O1_def del: foreachReplace.simps)
    moreover have "forwardRemap_spec (uint Offset) (map editRecord (Upd # Upds)) =
        forwardRemap_spec (uint O1) (map editRecord Upds)"
    proof -
      have "\<not> (uint (ByteOffset Upd) \<le> uint Offset \<and>
                uint Offset < uint (ByteOffset Upd) + uint (Length Upd))"
        using False span by simp
      from forwardRemap_spec_outside [OF this] show ?thesis
        by (simp only: list.map editRecord_def O1)
    qed
    ultimately show ?thesis using IH by simp
  qed
qed

section \<open>Claims about the offset remapper\<close>

text \<open>
  C1, as the specification states it: an offset exactly equal to an edit's start offset is
  outside that edit's span, so the remap never fails on account of an edit with a non-empty
  span whose start is the offset.  This is false.  Removing the "y" at offset 5 of
  "let xy = 1" fails the forward remap of offset 5 (offset removed), and inserting "y" at
  offset 5 of "let x = 1" fails the backward remap of offset 5 (offset inserted).
\<close>

theorem start_offset_counterexample:
  "connects Log2 OldSnap2 NewSnap2 \<and>
   mapOffsetToNewerSnapshot Log2 5 OldSnap2 NewSnap2 = None \<and>
   connects Log1 OldSnap1 NewSnap1 \<and>
   mapOffsetToOlderSnapshot Log1 5 NewSnap1 OldSnap1 = None"
  by (simp add: connects_def replaceText_def Log1_def Log2_def OldSnap1_def NewSnap1_def
      OldSnap2_def NewSnap2_def mapOffsetToNewerSnapshot_def mapOffsetToOlderSnapshot_def
      foreachReplaceUntil_def newerCallback_def partOfRemovedText_def partOfInsertedText_def
      StringRef_size_def)

text \<open>
  C1, amended: the start of a span belongs to the span.  When the replay reaches an edit
  with the offset equal to that edit's start byte offset, the forward remap fails if the
  edit removes at least one byte, and the backward remap fails if the edit inserts at least
  one byte (the end of the span being representable in the machine type of the comparison).
\<close>

theorem start_offset_inside_nonempty_span:
  assumes "L OldSnap NewSnap = pre @ Upd # post"
  shows "(foreachReplace pre newerCallback Offset = (True, ByteOffset Upd) \<and>
          Length Upd \<noteq> 0 \<and> unat (ByteOffset Upd) + unat (Length Upd) < 2 ^ 32
            \<longrightarrow> mapOffsetToNewerSnapshot L Offset OldSnap NewSnap = None) \<and>
         (undoUpdates (rev post) Offset = Some (ByteOffset Upd) \<and>
          Text Upd \<noteq> [] \<and> length (Text Upd) < 2 ^ 32
            \<longrightarrow> mapOffsetToOlderSnapshot L Offset NewSnap OldSnap = None)"
proof (intro conjI impI)
  assume h: "foreachReplace pre newerCallback Offset = (True, ByteOffset Upd) \<and>
          Length Upd \<noteq> 0 \<and> unat (ByteOffset Upd) + unat (Length Upd) < 2 ^ 32"
  then have "partOfRemovedText Upd (ByteOffset Upd)"
    by (simp add: partOfRemovedText_start)
  then have "foreachReplace (pre @ Upd # post) newerCallback Offset = (False, ByteOffset Upd)"
    using h by (simp add: foreachReplace_append newerCallback_def)
  then show "mapOffsetToNewerSnapshot L Offset OldSnap NewSnap = None"
    by (simp add: mapOffsetToNewerSnapshot_def foreachReplaceUntil_def assms)
next
  assume h: "undoUpdates (rev post) Offset = Some (ByteOffset Upd) \<and>
          Text Upd \<noteq> [] \<and> length (Text Upd) < 2 ^ 32"
  then have "partOfInsertedText Upd (ByteOffset Upd)"
    by (simp add: partOfInsertedText_start)
  then have "undoUpdates (rev (pre @ Upd # post)) Offset = None"
    using h by (simp add: undoUpdates_append)
  then show "mapOffsetToOlderSnapshot L Offset NewSnap OldSnap = None"
    by (simp add: mapOffsetToOlderSnapshot_undo assms)
qed

theorem start_offset_inside_nonempty_span_witness:
  "Log2 OldSnap2 NewSnap2 = [] @ \<lparr>ByteOffset = 5, Length = 1, Text = []\<rparr> # [] \<and>
   foreachReplace [] newerCallback 5 = (True, 5) \<and> (1 :: unsigned) \<noteq> 0 \<and>
   unat (5 :: unsigned) + unat (1 :: unsigned) < 2 ^ 32 \<and>
   mapOffsetToNewerSnapshot Log2 5 OldSnap2 NewSnap2 = None \<and>
   Log1 OldSnap1 NewSnap1 = [] @ \<lparr>ByteOffset = 5, Length = 0, Text = ''y''\<rparr> # [] \<and>
   undoUpdates (rev []) 5 = Some 5 \<and> ''y'' \<noteq> [] \<and> length ''y'' < 2 ^ 32 \<and>
   mapOffsetToOlderSnapshot Log1 5 NewSnap1 OldSnap1 = None"
  using
    start_offset_inside_nonempty_span [of Log2 OldSnap2 NewSnap2 "[]"
      "\<lparr>ByteOffset = 5, Length = 1, Text = []\<rparr>" "[]" 5]
    start_offset_inside_nonempty_span [of Log1 OldSnap1 NewSnap1 "[]"
      "\<lparr>ByteOffset = 5, Length = 0, Text = ''y''\<rparr>" "[]" 5]
  by (simp add: Log1_def Log2_def)

text \<open>
  C2, as the specification states it: for the edit (offset 5, removed length 0, inserted
  "y") from "let x = 1" to "let xy = 1", forward remap of 5 yields 5, backward remap of 7
  yields 6, and backward remap of 6 fails.  This is false: the first and the third part fail.
\<close>

theorem scenario1_counterexample:
  "\<not> (mapOffsetToNewerSnapshot Log1 5 OldSnap1 NewSnap1 = Some 5 \<and>
      mapOffsetToOlderSnapshot Log1 7 NewSnap1 OldSnap1 = Some 6 \<and>
      mapOffsetToOlderSnapshot Log1 6 NewSnap1 OldSnap1 = None)"
  by (simp add: Log1_def mapOffsetToNewerSnapshot_def mapOffsetToOlderSnapshot_def
      foreachReplaceUntil_def newerCallback_def partOfRemovedText_def partOfInsertedText_def
      redoUpdate_def undoUpdate_def StringRef_size_def)

text \<open>
  C2, amended: the edit takes "let x = 1" to "let xy = 1"; the inserted "y" is the byte at
  offset 5 of the new text.  Forward remap of 5 yields 6 (the byte that was at 5 now follows
  the "y"), backward remap of 7 yields 6, backward remap of 6 yields 5, and backward remap
  of 5, the inserted byte, fails.
\<close>

theorem scenario1_remaps:
  "connects Log1 OldSnap1 NewSnap1 \<and>
   mapOffsetToNewerSnapshot Log1 5 OldSnap1 NewSnap1 = Some 6 \<and>
   mapOffsetToOlderSnapshot Log1 7 NewSnap1 OldSnap1 = Some 6 \<and>
   mapOffsetToOlderSnapshot Log1 6 NewSnap1 OldSnap1 = Some 5 \<and>
   mapOffsetToOlderSnapshot Log1 5 NewSnap1 OldSnap1 = None"
  by (simp add: connects_def replaceText_def Log1_def OldSnap1_def NewSnap1_def
      mapOffsetToNewerSnapshot_def mapOffsetToOlderSnapshot_def
      foreachReplaceUntil_def newerCallback_def partOfRemovedText_def partOfInsertedText_def
      redoUpdate_def undoUpdate_def StringRef_size_def)

text \<open>
  C3: the forward remap replays the edits in chain order; it fails exactly when the offset,
  as carried to some edit, lies in that edit's removed span \<open>[start, start + removedLen)\<close>;
  every edit entirely at or before the offset adds \<open>insertedLen - removedLen\<close>; and it
  succeeds with the final offset otherwise.  For a chain that connects two snapshots and an
  offset valid in the older one, the code computes what the specification's wording
  computes on mathematical integers.
\<close>

theorem forward_remap_refines_spec:
  assumes "connects L OldSnap NewSnap"
    and "unat Offset \<le> length (Buffer OldSnap)"
  shows "map_option uint (mapOffsetToNewerSnapshot L Offset OldSnap NewSnap) =
           forwardRemap_spec (uint Offset) (map editRecord (L OldSnap NewSnap)) \<and>
         (mapOffsetToNewerSnapshot L Offset OldSnap NewSnap = None \<longleftrightarrow>
            insideRemovedSpan (L OldSnap NewSnap) Offset)"
proof -
  from assms(1) have "replayEdits (Buffer OldSnap) (L OldSnap NewSnap) = Some (Buffer NewSnap)"
    by (simp add: connects_def)
  note spec = forward_refines_spec [OF this assms(2)]
  obtain Completed Offset' where
    run: "foreachReplace (L OldSnap NewSnap) newerCallback Offset = (Completed, Offset')"
    by (cases "foreachReplace (L OldSnap NewSnap) newerCallback Offset")
  have "map_option uint (mapOffsetToNewerSnapshot L Offset OldSnap NewSnap) =
           forwardRemap_spec (uint Offset) (map editRecord (L OldSnap NewSnap))"
    using spec
    by (cases Completed) (simp_all add: run mapOffsetToNewerSnapshot_def foreachReplaceUntil_def)
  moreover have "mapOffsetToNewerSnapshot L Offset OldSnap NewSnap = None \<longleftrightarrow>
            insideRemovedSpan (L OldSnap NewSnap) Offset"
    using foreachReplace_newer_fst [of "L OldSnap NewSnap" Offset]
    by (simp add: run mapOffsetToNewerSnapshot_def foreachReplaceUntil_def)
  ultimately show ?thesis by blast
qed

theorem forward_remap_refines_spec_witness:
  "connects Log1 OldSnap1 NewSnap1 \<and> unat (5 :: unsigned) \<le> length (Buffer OldSnap1) \<and>
   map_option uint (mapOffsetToNewerSnapshot Log1 5 OldSnap1 NewSnap1) =
     forwardRemap_spec 5 [(5, 0, 1)] \<and>
   forwardRemap_spec 5 [(5, 0, 1)] = Some 6 \<and>
   \<not> insideRemovedSpan (Log1 OldSnap1 NewSnap1) 5 \<and>
   connects Log2 OldSnap2 NewSnap2 \<and> unat (5 :: unsigned) \<le> length (Buffer OldSnap2) \<and>
   map_option uint (mapOffsetToNewerSnapshot Log2 5 OldSnap2 NewSnap2) =
     forwardRemap_spec 5 [(5, 1, 0)] \<and>
   forwardRemap_spec 5 [(5, 1, 0)] = None \<and>
   insideRemovedSpan (Log2 OldSnap2 NewSnap2) 5"
proof -
  have a1: "connects Log1 OldSnap1 NewSnap1"
    by (simp add: connects_def replaceText_def Log1_def OldSnap1_def NewSnap1_def)
  have b1: "unat (5 :: unsigned) \<le> length (Buffer OldSnap1)"
    by (simp add: OldSnap1_def)
  have c1: "mapOffsetToNewerSnapshot Log1 5 OldSnap1 NewSnap1 = Some 6"
    by (simp add: Log1_def mapOffsetToNewerSnapshot_def foreachReplaceUntil_def newerCallback_def
        partOfRemovedText_def redoUpdate_def StringRef_size_def)
  have a2: "connects Log2 OldSnap2 NewSnap2"
    by (simp add: connects_def replaceText_def Log2_def OldSnap2_def NewSnap2_def)
  have b2: "unat (5 :: unsigned) \<le> length (Buffer OldSnap2)"
    by (simp add: OldSnap2_def)
  have c2: "mapOffsetToNewerSnapshot Log2 5 OldSnap2 NewSnap2 = None"
    by (simp add: Log2_def mapOffsetToNewerSnapshot_def foreachReplaceUntil_def newerCallback_def
        partOfRemovedText_def)
  have l: "Log1 OldSnap1 NewSnap1 = [\<lparr>ByteOffset = 5, Length = 0, Text = ''y''\<rparr>]"
    "Log2 OldSnap2 NewSnap2 = [\<lparr>ByteOffset = 5, Length = 1, Text = []\<rparr>]"
    by (simp_all add: Log1_def Log2_def)
  have "map_option uint (mapOffsetToNewerSnapshot Log1 5 OldSnap1 NewSnap1) =
          forwardRemap_spec 5 [(5, 0, 1)] \<and>
        forwardRemap_spec 5 [(5, 0, 1)] = Some 6 \<and>
        \<not> insideRemovedSpan (Log1 OldSnap1 NewSnap1) 5"
    using forward_remap_refines_spec [OF a1 b1] c1 l by (simp add: editRecord_def)
  moreover have "map_option uint (mapOffsetToNewerSnapshot Log2 5 OldSnap2 NewSnap2) =
          forwardRemap_spec 5 [(5, 1, 0)] \<and>
        forwardRemap_spec 5 [(5, 1, 0)] = None \<and>
        insideRemovedSpan (Log2 OldSnap2 NewSnap2) 5"
    using forward_remap_refines_spec [OF a2 b2] c2 l by (simp add: editRecord_def)
  ultimately show ?thesis
    using a1 b1 a2 b2 by blast
qed

text \<open>
  C4: for every chain of edit records that connects an older snapshot to a newer one and
  every offset valid in the older snapshot that is not inside the removed span of any edit,
  the forward remap succeeds and the backward remap of its result succeeds and returns the
  offset.  An offset is inside an edit's removed span when, carried through the edits
  before it, it falls into the text that the edit removes.
\<close>

theorem remap_round_trip:
  assumes "connects L OldSnap NewSnap"
    and "unat Offset \<le> length (Buffer OldSnap)"
    and "\<not> insideRemovedSpan (L OldSnap NewSnap) Offset"
  shows "\<exists>Offset'. mapOffsetToNewerSnapshot L Offset OldSnap NewSnap = Some Offset' \<and>
                   mapOffsetToOlderSnapshot L Offset' NewSnap OldSnap = Some Offset"
proof -
  from assms(1) have replay: "replayEdits (Buffer OldSnap) (L OldSnap NewSnap) = Some (Buffer NewSnap)"
    by (simp add: connects_def)
  obtain Offset' where run: "foreachReplace (L OldSnap NewSnap) newerCallback Offset = (True, Offset')"
    using assms(3) foreachReplace_newer_fst [of "L OldSnap NewSnap" Offset]
    by (cases "foreachReplace (L OldSnap NewSnap) newerCallback Offset") simp
  have "mapOffsetToNewerSnapshot L Offset OldSnap NewSnap = Some Offset'"
    using run by (simp add: mapOffsetToNewerSnapshot_def foreachReplaceUntil_def)
  moreover have "mapOffsetToOlderSnapshot L Offset' NewSnap OldSnap = Some Offset"
    using chain_roundtrip [OF replay assms(2) run] by (simp add: mapOffsetToOlderSnapshot_undo)
  ultimately show ?thesis by blast
qed

theorem remap_round_trip_witness:
  "connects Log1 OldSnap1 NewSnap1 \<and> unat (5 :: unsigned) \<le> length (Buffer OldSnap1) \<and>
   \<not> insideRemovedSpan (Log1 OldSnap1 NewSnap1) 5 \<and>
   (\<exists>Offset'. mapOffsetToNewerSnapshot Log1 5 OldSnap1 NewSnap1 = Some Offset' \<and>
               mapOffsetToOlderSnapshot Log1 Offset' NewSnap1 OldSnap1 = Some 5)"
proof -
  have a: "connects Log1 OldSnap1 NewSnap1"
    by (simp add: connects_def replaceText_def Log1_def OldSnap1_def NewSnap1_def)
  have b: "unat (5 :: unsigned) \<le> length (Buffer OldSnap1)"
    by (simp add: OldSnap1_def)
  have c: "\<not> insideRemovedSpan (Log1 OldSnap1 NewSnap1) 5"
    by (simp add: Log1_def insideRemovedSpan_Cons insideRemovedSpan_Nil partOfRemovedText_def)
  from remap_round_trip [OF a b c] a b c show ?thesis by blast
qed

section \<open>Facts about the concrete states\<close>

lemma Log1_backward_0: "mapOffsetToOlderSnapshot Log1 0 NewSnap1 OldSnap1 = Some 0"
  by (simp add: Log1_def mapOffsetToOlderSnapshot_def foreachReplaceUntil_def
      partOfInsertedText_def)

lemma Log1_backward_4: "mapOffsetToOlderSnapshot Log1 4 NewSnap1 OldSnap1 = Some 4"
  by (simp add: Log1_def mapOffsetToOlderSnapshot_def foreachReplaceUntil_def
      partOfInsertedText_def)

lemma LangA_latest: "latestSnapshotOf LangA ''a.swift'' = Some NewSnap1"
  by (simp add: latestSnapshotOf_def LangA_def)

lemma LangB_latest: "latestSnapshotOf LangB ''a.swift'' = Some NewSnap2"
  by (simp add: latestSnapshotOf_def LangB_def)

lemma LangA_no_document: "latestSnapshotOf LangA ''b.swift'' = None"
  by (simp add: latestSnapshotOf_def LangA_def)

lemma LangA_token_0: "getSourceToken LangA 0 NewSnap1 = ''let''" "getSourceToken LangA 0 OldSnap1 = ''let''"
  by (simp_all add: getSourceToken_def LangA_def wordAt_def NewSnap1_def OldSnap1_def)

lemma LangA_token_4: "getSourceToken LangA 4 NewSnap1 = ''xy''" "getSourceToken LangA 4 OldSnap1 = ''x''"
  by (simp_all add: getSourceToken_def LangA_def wordAt_def NewSnap1_def OldSnap1_def)

lemma Snap1_same_buffer: "isFromSameBuffer OldSnap1 NewSnap1" "Stamp OldSnap1 \<noteq> Stamp NewSnap1"
  by (simp_all add: isFromSameBuffer_def OldSnap1_def NewSnap1_def)

lemma Snap2_same_buffer: "isFromSameBuffer OldSnap2 NewSnap2" "Stamp OldSnap2 \<noteq> Stamp NewSnap2"
  by (simp_all add: isFromSameBuffer_def OldSnap2_def NewSnap2_def)

lemma LangA_log: "EditLog LangA = Log1" and LangB_log: "EditLog LangB = Log2"
  by (simp_all add: LangA_def LangB_def)

lemma Log1_forward: "mapOffsetToNewerSnapshot Log1 4 OldSnap1 NewSnap1 = Some 4"
  "mapOffsetToNewerSnapshot Log1 5 OldSnap1 NewSnap1 = Some 6"
  by (simp_all add: Log1_def mapOffsetToNewerSnapshot_def foreachReplaceUntil_def newerCallback_def
      partOfRemovedText_def redoUpdate_def StringRef_size_def)

lemma Log2_forward_5: "mapOffsetToNewerSnapshot Log2 5 OldSnap2 NewSnap2 = None"
  by (simp add: Log2_def mapOffsetToNewerSnapshot_def foreachReplaceUntil_def newerCallback_def
      partOfRemovedText_def)

lemma LangA_accepts_0:
  "canUseASTWithSnapshots LangA
     \<lparr>InputFile = ''a.swift'', ConsumerOffset = 0, TryExistingAST = True, PreviousASTSnaps = []\<rparr>
     [OldSnap1] =
   (True, \<lparr>InputFile = ''a.swift'', ConsumerOffset = 0, TryExistingAST = True,
           PreviousASTSnaps = [OldSnap1]\<rparr>)"
  using Log1_backward_0 LangA_token_0 Snap1_same_buffer
  by (simp add: canUseASTWithSnapshots_def LangA_latest) (simp add: LangA_def)

lemma LangB_remap_fails:
  "tryRemappingLocToLatestSnapshot LangB (5, 1) ''a.swift'' [OldSnap2] = None"
  by (simp add: tryRemappingLocToLatestSnapshot_def LangB_latest Snap2_same_buffer LangB_log Log2_forward_5)

lemma ASTFor_simps [simp]:
  "getLocForStartOfToken (ASTFor Tok) Offset = Some (unat Offset)"
  "resolve (ASTFor Tok) Loc = Tok"
  "PrimarySourceFile (ASTFor Tok) = [DeclSite 10 (4, 1), RefSite 11 None (9, 1), RefSite 10 None (14, 1)]"
  by (simp_all add: ASTFor_def)

lemma tokenFor_simps [simp]:
  "\<not> isInvalid (tokenFor D)" "Mod (tokenFor D) = None" "CtorTyRef (tokenFor D) = None"
  "ValueD (tokenFor D) = Some D" "IsRef (tokenFor D)" "\<not> IsKeywordArgument (tokenFor D)"
  by (simp_all add: tokenFor_def isInvalid_def)

lemma Receiver_simps [simp]:
  "Calls (Receiver Info st) = Calls st"
  "Builds (Receiver Info st) = Builds st"
  "Delivered (Receiver Info st) = Delivered st @ [Info]"
  by (simp_all add: Receiver_def)

section \<open>Claims about staleness negotiation\<close>

lemma mappedBackOffset_skip:
  assumes "\<forall>S \<in> set pre. \<not> isFromSameBuffer S InputSnap"
  shows "mappedBackOffset Lang Offset InputSnap (pre @ rest) =
         mappedBackOffset Lang Offset InputSnap rest"
  using assms by (induction pre) simp_all

text \<open>
  C5: during staleness negotiation, if the backward remap of the offset to the candidate
  snapshot (the first snapshot of the analysis that is from the same buffer as the latest
  one, with a different stamp) succeeds, but the token text at the offset in the latest
  snapshot differs from the token text at the remapped offset in the candidate snapshot, or
  either token text is empty, then the negotiation rejects: the consumer is left as it was,
  and the broker goes on to a fresh build.
\<close>

theorem identity_guard_rejects:
  assumes reuse: "TryExistingAST Consumer"
    and latest: "latestSnapshotOf Lang (InputFile Consumer) = Some InputSnap"
    and candidate: "Snapshots = pre @ Snap # post"
      "\<forall>S \<in> set pre. \<not> isFromSameBuffer S InputSnap"
      "isFromSameBuffer Snap InputSnap"
    and stale: "Stamp Snap \<noteq> Stamp InputSnap"
    and remap: "mapOffsetToOlderSnapshot (EditLog Lang) (ConsumerOffset Consumer) InputSnap Snap =
                  Some OldOffset"
    and tokens: "getSourceToken Lang (ConsumerOffset Consumer) InputSnap \<noteq>
                   getSourceToken Lang OldOffset Snap \<or>
                 getSourceToken Lang (ConsumerOffset Consumer) InputSnap = [] \<or>
                 getSourceToken Lang OldOffset Snap = []"
  shows "canUseASTWithSnapshots Lang Consumer Snapshots = (False, Consumer) \<and>
         (ExistingAST (ASTManager Lang (Calls st)) = Some (AstUnit, Snapshots) \<longrightarrow>
          processASTAsync Lang Consumer st =
            (case FreshAST (ASTManager Lang (Calls st)) of
               Built Fresh \<Rightarrow>
                 handlePrimaryAST Lang Consumer Fresh
                   (st\<lparr>Calls := Calls st + 1, Builds := Builds st + 1\<rparr>)
             | BuildCancelled \<Rightarrow>
                 cancelled (st\<lparr>Calls := Calls st + 1, Builds := Builds st + 1\<rparr>)
             | BuildFailed Error \<Rightarrow>
                 failed Error (st\<lparr>Calls := Calls st + 1, Builds := Builds st + 1\<rparr>)))"
proof -
  have "mappedBackOffset Lang (ConsumerOffset Consumer) InputSnap Snapshots = None"
    using candidate stale remap tokens
    by (auto simp add: mappedBackOffset_skip Let_def)
  then have rej: "canUseASTWithSnapshots Lang Consumer Snapshots = (False, Consumer)"
    using reuse latest by (simp add: canUseASTWithSnapshots_def)
  then show ?thesis
    by (simp add: processASTAsync.simps split: BuildResult.splits)
qed

theorem identity_guard_rejects_witness:
  "latestSnapshotOf LangA ''a.swift'' = Some NewSnap1 \<and>
   isFromSameBuffer OldSnap1 NewSnap1 \<and> Stamp OldSnap1 \<noteq> Stamp NewSnap1 \<and>
   mapOffsetToOlderSnapshot (EditLog LangA) 4 NewSnap1 OldSnap1 = Some 4 \<and>
   getSourceToken LangA 4 NewSnap1 = ''xy'' \<and> getSourceToken LangA 4 OldSnap1 = ''x'' \<and>
   canUseASTWithSnapshots LangA
     \<lparr>InputFile = ''a.swift'', ConsumerOffset = 4, TryExistingAST = True, PreviousASTSnaps = []\<rparr>
     [OldSnap1] =
     (False, \<lparr>InputFile = ''a.swift'', ConsumerOffset = 4, TryExistingAST = True,
              PreviousASTSnaps = []\<rparr>) \<and>
   ExistingAST (ASTManager LangA (Calls Query0)) =
     Some (ASTFor (tokenFor (DeclX\<lparr>isUnavailable := True\<rparr>)), [OldSnap1]) \<and>
   processASTAsync LangA
     \<lparr>InputFile = ''a.swift'', ConsumerOffset = 4, TryExistingAST = True, PreviousASTSnaps = []\<rparr>
     Query0 =
   handlePrimaryAST LangA
     \<lparr>InputFile = ''a.swift'', ConsumerOffset = 4, TryExistingAST = True, PreviousASTSnaps = []\<rparr>
     (ASTFor (tokenFor (DeclX\<lparr>isUnavailable := True\<rparr>)))
     \<lparr>Calls = 1, Builds = 1, Delivered = []\<rparr>"
proof -
  let ?C = "\<lparr>InputFile = ''a.swift'', ConsumerOffset = 4, TryExistingAST = True,
             PreviousASTSnaps = []\<rparr>"
  let ?A = "ASTFor (tokenFor (DeclX\<lparr>isUnavailable := True\<rparr>))"
  have m0: "ASTManager LangA (Calls Query0) = \<lparr>ExistingAST = Some (?A, [OldSnap1]), FreshAST = Built ?A\<rparr>"
    by (simp add: LangA_def Query0_def)
  have remap: "mapOffsetToOlderSnapshot (EditLog LangA) (ConsumerOffset ?C) NewSnap1 OldSnap1 = Some 4"
    using Log1_backward_4 by (simp add: LangA_log)
  have tokens: "getSourceToken LangA (ConsumerOffset ?C) NewSnap1 \<noteq> getSourceToken LangA 4 OldSnap1 \<or>
                 getSourceToken LangA (ConsumerOffset ?C) NewSnap1 = [] \<or>
                 getSourceToken LangA 4 OldSnap1 = []"
    by (simp add: LangA_token_4)
  from identity_guard_rejects [of ?C LangA NewSnap1 "[OldSnap1]" "[]" OldSnap1 "[]" 4 Query0 ?A,
      OF _ _ _ _ Snap1_same_buffer(1) Snap1_same_buffer(2) remap tokens]
  show ?thesis
    using LangA_latest Snap1_same_buffer Log1_backward_4 LangA_token_4 m0 by (simp add: LangA_log Query0_def)
qed

section \<open>Claims about the cursor pipeline\<close>

text \<open>A valid token that names no module names a declaration.\<close>

lemma valid_token_names_decl:
  assumes "\<not> isInvalid SemaTok" and "Mod SemaTok = None"
  shows "\<exists>VD. (case CtorTyRef SemaTok of Some T \<Rightarrow> Some T | None \<Rightarrow> ValueD SemaTok) = Some VD"
  using assms by (auto simp: isInvalid_def split: option.splits)

lemma passCursorInfoForDecl_failed:
  "passCursorInfoForDecl Lang VD PrevSnaps st = (True, st') \<Longrightarrow> st' = st"
  by (auto simp: passCursorInfoForDecl_def Let_def split: if_splits option.splits)

lemma passCursorInfoForDecl_passed:
  "passCursorInfoForDecl Lang VD PrevSnaps st = (False, st') \<Longrightarrow>
   \<exists>Info. st' = Receiver Info st"
  by (auto simp: passCursorInfoForDecl_def Let_def split: if_splits option.splits)

text \<open>An attempt with no previous snapshots asks for no analysis and delivers once.\<close>

lemma handlePrimaryAST_no_previous:
  assumes "PreviousASTSnaps Consumer = []"
  shows "\<exists>Info. handlePrimaryAST Lang Consumer AstUnit st = Receiver Info st"
proof (cases "getLocForStartOfToken AstUnit (ConsumerOffset Consumer)")
  case None
  then show ?thesis by (auto simp: handlePrimaryAST.simps)
next
  case loc: (Some Loc)
  let ?Tok = "resolve AstUnit Loc"
  show ?thesis
  proof (cases "isInvalid ?Tok")
    case True
    then show ?thesis using loc by (auto simp: handlePrimaryAST.simps Let_def)
  next
    case valid: False
    show ?thesis
    proof (cases "Mod ?Tok")
      case (Some M)
      then show ?thesis
        using loc valid
        by (auto simp: handlePrimaryAST.simps Let_def passCursorInfoForModule_def)
    next
      case nomod: None
      show ?thesis
      proof (cases "case CtorTyRef ?Tok of Some T \<Rightarrow> Some T | None \<Rightarrow> ValueD ?Tok")
        case None
        then show ?thesis
          using loc valid nomod by (auto simp: handlePrimaryAST.simps Let_def)
      next
        case (Some VD)
        obtain Failed st' where
          pass: "passCursorInfoForDecl Lang VD (PreviousASTSnaps Consumer) st = (Failed, st')"
          by (cases "passCursorInfoForDecl Lang VD (PreviousASTSnaps Consumer) st")
        have unfold: "handlePrimaryAST Lang Consumer AstUnit st =
            (if Failed then Receiver emptyCursorInfo st' else st')"
          using loc valid nomod Some pass assms
          by (cases Failed) (simp_all add: handlePrimaryAST.simps Let_def)
        show ?thesis
        proof (cases Failed)
          case True
          then have "st' = st"
            using pass by (auto dest: passCursorInfoForDecl_failed)
          then show ?thesis
            using unfold True by auto
        next
          case False
          then obtain Info where "st' = Receiver Info st"
            using pass by (auto dest: passCursorInfoForDecl_passed)
          then show ?thesis
            using unfold False by auto
        qed
      qed
    qed
  qed
qed

lemma resolveCursor_fresh:
  "\<exists>Info. resolveCursor Lang File Offset False st =
     Receiver Info (st\<lparr>Calls := Calls st + 1, Builds := Builds st + 1\<rparr>)"
proof -
  let ?C = "\<lparr>InputFile = File, ConsumerOffset = Offset, TryExistingAST = False,
              PreviousASTSnaps = []\<rparr>"
  let ?R = "ASTManager Lang (Calls st)"
  have neg: "(case ExistingAST ?R of
               None \<Rightarrow> (None, ?C)
             | Some (AstUnit, Snapshots) \<Rightarrow>
                 (case canUseASTWithSnapshots Lang ?C Snapshots of
                    (True, Consumer') \<Rightarrow> (Some AstUnit, Consumer')
                  | (False, Consumer') \<Rightarrow> (None, Consumer'))) = (None, ?C)"
    by (simp add: canUseASTWithSnapshots_fresh split: option.splits)
  show ?thesis
  proof (cases "FreshAST ?R")
    case (Built AstUnit)
    obtain Info where "handlePrimaryAST Lang ?C AstUnit (st\<lparr>Calls := Calls st + 1, Builds := Builds st + 1\<rparr>)
        = Receiver Info (st\<lparr>Calls := Calls st + 1, Builds := Builds st + 1\<rparr>)"
      using handlePrimaryAST_no_previous [of ?C Lang AstUnit] by auto
    then show ?thesis
      using Built neg by (auto simp: resolveCursor.simps processASTAsync.simps Let_def)
  next
    case BuildCancelled
    then show ?thesis
      using neg by (auto simp: resolveCursor.simps processASTAsync.simps Let_def cancelled_def)
  next
    case (BuildFailed Error)
    then show ?thesis
      using neg by (auto simp: resolveCursor.simps processASTAsync.simps Let_def failed_def)
  qed
qed

text \<open>
  C6: if assembling the response for a resolved declaration fails and the previous-snapshot
  list is non-empty (a stale analysis had been accepted), the whole pipeline runs again with
  reuse disabled, and that run asks the broker exactly once, starts one fresh build and
  delivers exactly once, so there is no second retry; if the list is empty, the query ends
  with the empty result.
\<close>

theorem retry_once_after_failed_assembly:
  assumes loc: "getLocForStartOfToken AstUnit (ConsumerOffset Consumer) = Some Loc"
    and valid: "\<not> isInvalid (resolve AstUnit Loc)"
    and nomod: "Mod (resolve AstUnit Loc) = None"
    and decl: "(case CtorTyRef (resolve AstUnit Loc) of
                  Some T \<Rightarrow> Some T | None \<Rightarrow> ValueD (resolve AstUnit Loc)) = Some VD"
    and fails: "fst (passCursorInfoForDecl Lang VD (PreviousASTSnaps Consumer) st)"
  shows "(PreviousASTSnaps Consumer \<noteq> [] \<longrightarrow>
            handlePrimaryAST Lang Consumer AstUnit st =
              resolveCursor Lang (InputFile Consumer) (ConsumerOffset Consumer) False st \<and>
            Calls (handlePrimaryAST Lang Consumer AstUnit st) = Calls st + 1 \<and>
            Builds (handlePrimaryAST Lang Consumer AstUnit st) = Builds st + 1 \<and>
            length (Delivered (handlePrimaryAST Lang Consumer AstUnit st)) =
              length (Delivered st) + 1) \<and>
         (PreviousASTSnaps Consumer = [] \<longrightarrow>
            handlePrimaryAST Lang Consumer AstUnit st = Receiver emptyCursorInfo st)"
proof -
  obtain st' where pass: "passCursorInfoForDecl Lang VD (PreviousASTSnaps Consumer) st = (True, st')"
    using fails by (cases "passCursorInfoForDecl Lang VD (PreviousASTSnaps Consumer) st") simp
  then have st': "st' = st" by (rule passCursorInfoForDecl_failed)
  have unfold: "handlePrimaryAST Lang Consumer AstUnit st =
      (if PreviousASTSnaps Consumer \<noteq> []
       then resolveCursor Lang (InputFile Consumer) (ConsumerOffset Consumer) False st
       else Receiver emptyCursorInfo st)"
    using loc valid nomod decl pass st' by (simp add: handlePrimaryAST.simps)
  obtain Info where fresh:
    "resolveCursor Lang (InputFile Consumer) (ConsumerOffset Consumer) False st =
     Receiver Info (st\<lparr>Calls := Calls st + 1, Builds := Builds st + 1\<rparr>)"
    using resolveCursor_fresh by blast
  show ?thesis
    unfolding unfold using fresh by simp
qed

theorem retry_once_after_failed_assembly_witness:
  "fst (passCursorInfoForDecl LangB (DeclX\<lparr>LocationInfo := Some (5, 1)\<rparr>) [OldSnap2] Query0) \<and>
   handlePrimaryAST LangB
     \<lparr>InputFile = ''a.swift'', ConsumerOffset = 0, TryExistingAST = True,
      PreviousASTSnaps = [OldSnap2]\<rparr>
     (ASTFor (tokenFor (DeclX\<lparr>LocationInfo := Some (5, 1)\<rparr>))) Query0 =
     resolveCursor LangB ''a.swift'' 0 False Query0 \<and>
   Calls (handlePrimaryAST LangB
     \<lparr>InputFile = ''a.swift'', ConsumerOffset = 0, TryExistingAST = True,
      PreviousASTSnaps = [OldSnap2]\<rparr>
     (ASTFor (tokenFor (DeclX\<lparr>LocationInfo := Some (5, 1)\<rparr>))) Query0) = 1 \<and>
   fst (passCursorInfoForDecl LangB (DeclX\<lparr>isUnavailable := True\<rparr>) [] Query0) \<and>
   handlePrimaryAST LangB
     \<lparr>InputFile = ''a.swift'', ConsumerOffset = 0, TryExistingAST = False, PreviousASTSnaps = []\<rparr>
     (ASTFor (tokenFor (DeclX\<lparr>isUnavailable := True\<rparr>))) Query0 =
     \<lparr>Calls = 0, Builds = 0, Delivered = [emptyCursorInfo]\<rparr>"
proof -
  let ?C = "\<lparr>InputFile = ''a.swift'', ConsumerOffset = 0, TryExistingAST = True,
             PreviousASTSnaps = [OldSnap2]\<rparr>"
  let ?F = "\<lparr>InputFile = ''a.swift'', ConsumerOffset = 0, TryExistingAST = False,
             PreviousASTSnaps = []\<rparr>"
  let ?D = "DeclX\<lparr>LocationInfo := Some (5, 1)\<rparr>"
  let ?U = "DeclX\<lparr>isUnavailable := True\<rparr>"
  have g1: "fst (passCursorInfoForDecl LangB ?D [OldSnap2] Query0)"
    by (simp add: passCursorInfoForDecl_def DeclX_def LangB_remap_fails)
  have g2: "fst (passCursorInfoForDecl LangB ?U [] Query0)"
    by (simp add: passCursorInfoForDecl_def)
  have f1: "fst (passCursorInfoForDecl LangB ?D (PreviousASTSnaps ?C) Query0)"
    and f2: "fst (passCursorInfoForDecl LangB ?U (PreviousASTSnaps ?F) Query0)"
    using g1 g2 by simp_all
  have c: "PreviousASTSnaps ?C \<noteq> []" "PreviousASTSnaps ?F = []"
    "InputFile ?C = ''a.swift''" "ConsumerOffset ?C = 0" "Calls Query0 + 1 = 1"
    "Receiver emptyCursorInfo Query0 = \<lparr>Calls = 0, Builds = 0, Delivered = [emptyCursorInfo]\<rparr>"
    by (simp_all add: Query0_def Receiver_def)
  have "handlePrimaryAST LangB ?C (ASTFor (tokenFor ?D)) Query0 =
              resolveCursor LangB ''a.swift'' 0 False Query0 \<and>
        Calls (handlePrimaryAST LangB ?C (ASTFor (tokenFor ?D)) Query0) = 1"
    using retry_once_after_failed_assembly [of "ASTFor (tokenFor ?D)" ?C _ ?D LangB Query0, OF _ _ _ _ f1]
    unfolding c by auto
  moreover have "handlePrimaryAST LangB ?F (ASTFor (tokenFor ?U)) Query0 =
              \<lparr>Calls = 0, Builds = 0, Delivered = [emptyCursorInfo]\<rparr>"
    using retry_once_after_failed_assembly [of "ASTFor (tokenFor ?U)" ?F _ ?U LangB Query0, OF _ _ _ _ f2]
    unfolding c by simp
  ultimately show ?thesis
    using g1 g2 by blast
qed

text \<open>
  C7, as the specification states it: a query whose offset resolves to a declaration marked
  unavailable ends with an empty result and triggers no analysis build beyond the first
  analysis used to resolve it.  This is false when that first analysis is an existing one
  that the negotiation accepted: the query at offset 0 of "a.swift" is resolved on the
  existing analysis, the declaration is unavailable, and the pipeline asks the broker a
  second time and runs a fresh build.
\<close>

theorem unavailable_retry_counterexample:
  "canUseASTWithSnapshots LangA
     \<lparr>InputFile = ''a.swift'', ConsumerOffset = 0, TryExistingAST = True, PreviousASTSnaps = []\<rparr>
     [OldSnap1] =
   (True, \<lparr>InputFile = ''a.swift'', ConsumerOffset = 0, TryExistingAST = True,
           PreviousASTSnaps = [OldSnap1]\<rparr>) \<and>
   resolveCursor LangA ''a.swift'' 0 True Query0 =
     \<lparr>Calls = 2, Builds = 1, Delivered = [emptyCursorInfo]\<rparr>"
proof -
  let ?C = "\<lparr>InputFile = ''a.swift'', ConsumerOffset = 0, TryExistingAST = True,
           PreviousASTSnaps = [OldSnap1]\<rparr>"
  let ?F = "\<lparr>InputFile = ''a.swift'', ConsumerOffset = 0, TryExistingAST = False,
           PreviousASTSnaps = []\<rparr>"
  let ?A = "ASTFor (tokenFor (DeclX\<lparr>isUnavailable := True\<rparr>))"
  have m0: "ASTManager LangA 0 = \<lparr>ExistingAST = Some (?A, [OldSnap1]), FreshAST = Built ?A\<rparr>"
    by (simp add: LangA_def)
  have m1: "ASTManager LangA (Suc 0) = \<lparr>ExistingAST = None, FreshAST = Built ?A\<rparr>"
    by (simp add: LangA_def)
  have second: "handlePrimaryAST LangA ?F ?A st = Receiver emptyCursorInfo st" for st
    by (simp add: handlePrimaryAST.simps ASTFor_def tokenFor_def isInvalid_def
        passCursorInfoForDecl_def)
  have retry: "resolveCursor LangA ''a.swift'' 0 False \<lparr>Calls = Suc 0, Builds = 0, Delivered = []\<rparr> =
      \<lparr>Calls = 2, Builds = 1, Delivered = [emptyCursorInfo]\<rparr>"
    by (simp add: resolveCursor.simps processASTAsync.simps m1 second Receiver_def)
  have first: "handlePrimaryAST LangA ?C ?A \<lparr>Calls = Suc 0, Builds = 0, Delivered = []\<rparr> =
      \<lparr>Calls = 2, Builds = 1, Delivered = [emptyCursorInfo]\<rparr>"
    using retry
    by (simp add: handlePrimaryAST.simps ASTFor_def tokenFor_def isInvalid_def
        passCursorInfoForDecl_def)
  have "resolveCursor LangA ''a.swift'' 0 True Query0 =
     \<lparr>Calls = 2, Builds = 1, Delivered = [emptyCursorInfo]\<rparr>"
    using first
    by (simp add: resolveCursor.simps processASTAsync.simps Query0_def m0 LangA_accepts_0)
  with LangA_accepts_0 show ?thesis by simp
qed

text \<open>
  C7, amended: an attempt whose offset resolves to a declaration marked unavailable counts
  as a failed assembly.  With an empty previous-snapshot list the query ends with the empty
  result and asks for no further analysis; so a query that the broker serves with a fresh
  build at once ends empty after that one build.  With a non-empty list (an existing
  analysis had been accepted) the pipeline runs again with reuse disabled.
\<close>

theorem unavailable_decl_result:
  assumes loc: "getLocForStartOfToken AstUnit (ConsumerOffset Consumer) = Some Loc"
    and valid: "\<not> isInvalid (resolve AstUnit Loc)"
    and nomod: "Mod (resolve AstUnit Loc) = None"
    and decl: "(case CtorTyRef (resolve AstUnit Loc) of
                  Some T \<Rightarrow> Some T | None \<Rightarrow> ValueD (resolve AstUnit Loc)) = Some VD"
    and unavailable: "isUnavailable VD"
  shows "(PreviousASTSnaps Consumer = [] \<longrightarrow>
            handlePrimaryAST Lang Consumer AstUnit st = Receiver emptyCursorInfo st) \<and>
         (PreviousASTSnaps Consumer \<noteq> [] \<longrightarrow>
            handlePrimaryAST Lang Consumer AstUnit st =
              resolveCursor Lang (InputFile Consumer) (ConsumerOffset Consumer) False st) \<and>
         (ExistingAST (ASTManager Lang (Calls st)) = None \<and>
          FreshAST (ASTManager Lang (Calls st)) = Built AstUnit \<longrightarrow>
            resolveCursor Lang File (ConsumerOffset Consumer) TryExisting st =
              Receiver emptyCursorInfo (st\<lparr>Calls := Calls st + 1, Builds := Builds st + 1\<rparr>))"
proof -
  have pass: "passCursorInfoForDecl Lang VD Prev st1 = (True, st1)" for Prev st1
    using unavailable by (simp add: passCursorInfoForDecl_def)
  have unfold: "handlePrimaryAST Lang C AstUnit st1 =
      (if PreviousASTSnaps C \<noteq> []
       then resolveCursor Lang (InputFile C) (ConsumerOffset C) False st1
       else Receiver emptyCursorInfo st1)"
    if "ConsumerOffset C = ConsumerOffset Consumer" for C st1
    using loc valid nomod decl pass that by (simp add: handlePrimaryAST.simps)
  have "resolveCursor Lang File (ConsumerOffset Consumer) TryExisting st =
          Receiver emptyCursorInfo (st\<lparr>Calls := Calls st + 1, Builds := Builds st + 1\<rparr>)"
    if "ExistingAST (ASTManager Lang (Calls st)) = None"
      and "FreshAST (ASTManager Lang (Calls st)) = Built AstUnit"
    using that by (simp add: resolveCursor.simps processASTAsync.simps unfold)
  then show ?thesis
    using unfold [of Consumer st] by simp
qed

theorem unavailable_decl_result_witness:
  "isUnavailable (DeclX\<lparr>isUnavailable := True\<rparr>) \<and>
   handlePrimaryAST LangA
     \<lparr>InputFile = ''a.swift'', ConsumerOffset = 0, TryExistingAST = False, PreviousASTSnaps = []\<rparr>
     (ASTFor (tokenFor (DeclX\<lparr>isUnavailable := True\<rparr>))) Query0 =
     \<lparr>Calls = 0, Builds = 0, Delivered = [emptyCursorInfo]\<rparr> \<and>
   handlePrimaryAST LangA
     \<lparr>InputFile = ''a.swift'', ConsumerOffset = 0, TryExistingAST = True,
      PreviousASTSnaps = [OldSnap1]\<rparr>
     (ASTFor (tokenFor (DeclX\<lparr>isUnavailable := True\<rparr>))) Query0 =
     resolveCursor LangA ''a.swift'' 0 False Query0 \<and>
   ExistingAST (ASTManager LangA 1) = None \<and>
   FreshAST (ASTManager LangA 1) = Built (ASTFor (tokenFor (DeclX\<lparr>isUnavailable := True\<rparr>))) \<and>
   resolveCursor LangA ''a.swift'' 0 True \<lparr>Calls = 1, Builds = 0, Delivered = []\<rparr> =
     \<lparr>Calls = 2, Builds = 1, Delivered = [emptyCursorInfo]\<rparr>"
proof -
  let ?C = "\<lparr>InputFile = ''a.swift'', ConsumerOffset = 0, TryExistingAST = True,
             PreviousASTSnaps = [OldSnap1]\<rparr>"
  let ?F = "\<lparr>InputFile = ''a.swift'', ConsumerOffset = 0, TryExistingAST = False,
             PreviousASTSnaps = []\<rparr>"
  let ?U = "DeclX\<lparr>isUnavailable := True\<rparr>"
  let ?st = "\<lparr>Calls = 1, Builds = 0, Delivered = []\<rparr>"
  have m1: "ExistingAST (ASTManager LangA 1) = None"
    "FreshAST (ASTManager LangA 1) = Built (ASTFor (tokenFor ?U))"
    by (simp_all add: LangA_def)
  from unavailable_decl_result [of "ASTFor (tokenFor ?U)" ?F 0 ?U LangA Query0]
    unavailable_decl_result [of "ASTFor (tokenFor ?U)" ?C 0 ?U LangA Query0]
    unavailable_decl_result [of "ASTFor (tokenFor ?U)" ?F 0 ?U LangA ?st "''a.swift''" True]
    m1
  show ?thesis
    by (simp add: Query0_def Receiver_def)
qed

section \<open>Claims about the declaration location\<close>

lemma remapInSnapshots_skip:
  assumes "\<forall>S \<in> set pre. \<not> isFromSameBuffer S LatestSnap"
  shows "remapInSnapshots Lang Rng LatestSnap (pre @ rest) =
         remapInSnapshots Lang Rng LatestSnap rest"
  using assms by (induction pre) simp_all

text \<open>
  C8: when the location of an available declaration is reported and the analysis was built
  from a previous snapshot of the file's open document (the first snapshot in the list from
  the same buffer as the latest one, with a different stamp), both ends of the range are
  remapped forward to the latest snapshot and the response carries the remapped begin and
  the remapped length; if either forward remap fails, the resolution fails and nothing is
  delivered.
\<close>

theorem declaration_loc_remapped_or_failed:
  assumes available: "\<not> isUnavailable VD"
    and reported: "LocationInfo VD = Some Rng"
    and latest: "latestSnapshotOf Lang (LocationFile VD) = Some LatestSnap"
    and previous: "PrevSnaps = pre @ PrevSnap # post"
      "\<forall>S \<in> set pre. \<not> isFromSameBuffer S LatestSnap"
      "isFromSameBuffer PrevSnap LatestSnap"
    and stale: "Stamp PrevSnap \<noteq> Stamp LatestSnap"
  shows "(\<forall>Begin End.
            mapOffsetToNewerSnapshot (EditLog Lang) (fst Rng) PrevSnap LatestSnap = Some Begin \<and>
            mapOffsetToNewerSnapshot (EditLog Lang) (fst Rng + snd Rng) PrevSnap LatestSnap = Some End
            \<longrightarrow> passCursorInfoForDecl Lang VD PrevSnaps st =
                  (False,
                   Receiver \<lparr>Name = DisplayName VD, USR = USRString VD, TypeName = TypeString VD,
                             ModuleName = OwningModule VD,
                             DeclarationLoc = Some (Begin, End - Begin),
                             Filename = LocationFile VD, IsCancelled = False\<rparr> st)) \<and>
         (mapOffsetToNewerSnapshot (EditLog Lang) (fst Rng) PrevSnap LatestSnap = None \<or>
          mapOffsetToNewerSnapshot (EditLog Lang) (fst Rng + snd Rng) PrevSnap LatestSnap = None
            \<longrightarrow> passCursorInfoForDecl Lang VD PrevSnaps st = (True, st))"
proof -
  have remap: "tryRemappingLocToLatestSnapshot Lang Rng (LocationFile VD) PrevSnaps =
      (case mapOffsetToNewerSnapshot (EditLog Lang) (fst Rng) PrevSnap LatestSnap of
         None \<Rightarrow> None
       | Some OptBegin \<Rightarrow>
           (case mapOffsetToNewerSnapshot (EditLog Lang) (fst Rng + snd Rng) PrevSnap LatestSnap of
              None \<Rightarrow> None
            | Some OptEnd \<Rightarrow> Some (OptBegin, OptEnd - OptBegin)))"
    using latest previous stale
    by (simp add: tryRemappingLocToLatestSnapshot_def remapInSnapshots_skip)
  show ?thesis
    using available reported
    by (auto simp add: passCursorInfoForDecl_def Let_def remap split: option.splits)
qed

theorem declaration_loc_remapped_or_failed_witness:
  "\<not> isUnavailable DeclX \<and> LocationInfo DeclX = Some (4, 1) \<and>
   latestSnapshotOf LangA (LocationFile DeclX) = Some NewSnap1 \<and>
   isFromSameBuffer OldSnap1 NewSnap1 \<and> Stamp OldSnap1 \<noteq> Stamp NewSnap1 \<and>
   mapOffsetToNewerSnapshot (EditLog LangA) 4 OldSnap1 NewSnap1 = Some 4 \<and>
   mapOffsetToNewerSnapshot (EditLog LangA) (4 + 1) OldSnap1 NewSnap1 = Some 6 \<and>
   passCursorInfoForDecl LangA DeclX [OldSnap1] Query0 =
     (False, \<lparr>Calls = 0, Builds = 0,
              Delivered = [\<lparr>Name = ''x'', USR = ''s:1x'', TypeName = ''Int'', ModuleName = ''main'',
                            DeclarationLoc = Some (4, 2), Filename = ''a.swift'',
                            IsCancelled = False\<rparr>]\<rparr>) \<and>
   latestSnapshotOf LangB (LocationFile (DeclX\<lparr>LocationInfo := Some (5, 1)\<rparr>)) = Some NewSnap2 \<and>
   isFromSameBuffer OldSnap2 NewSnap2 \<and> Stamp OldSnap2 \<noteq> Stamp NewSnap2 \<and>
   mapOffsetToNewerSnapshot (EditLog LangB) 5 OldSnap2 NewSnap2 = None \<and>
   passCursorInfoForDecl LangB (DeclX\<lparr>LocationInfo := Some (5, 1)\<rparr>) [OldSnap2] Query0 =
     (True, Query0)"
proof -
  let ?D = "DeclX\<lparr>LocationInfo := Some (5, 1)\<rparr>"
  have a: "\<not> isUnavailable DeclX" "LocationInfo DeclX = Some (4, 1)"
    "LocationFile DeclX = ''a.swift''"
    "\<not> isUnavailable ?D" "LocationInfo ?D = Some (5, 1)" "LocationFile ?D = ''a.swift''"
    by (simp_all add: DeclX_def)
  have la: "latestSnapshotOf LangA (LocationFile DeclX) = Some NewSnap1"
    and lb: "latestSnapshotOf LangB (LocationFile ?D) = Some NewSnap2"
    by (simp_all add: a LangA_latest LangB_latest)
  have fa: "mapOffsetToNewerSnapshot (EditLog LangA) 4 OldSnap1 NewSnap1 = Some 4"
    "mapOffsetToNewerSnapshot (EditLog LangA) (4 + 1) OldSnap1 NewSnap1 = Some 6"
    and fb: "mapOffsetToNewerSnapshot (EditLog LangB) 5 OldSnap2 NewSnap2 = None"
    by (simp_all add: LangA_log LangB_log Log1_forward Log2_forward_5)
  from declaration_loc_remapped_or_failed [of DeclX "(4, 1)" LangA NewSnap1 "[OldSnap1]" "[]"
      OldSnap1 "[]" Query0, OF a(1) a(2) la _ _ Snap1_same_buffer(1) Snap1_same_buffer(2)]
    declaration_loc_remapped_or_failed [of ?D "(5, 1)" LangB NewSnap2 "[OldSnap2]" "[]"
      OldSnap2 "[]" Query0, OF a(4) a(5) lb _ _ Snap2_same_buffer(1) Snap2_same_buffer(2)]
    a la lb fa fb Snap1_same_buffer Snap2_same_buffer
  show ?thesis
    by (simp add: Query0_def Receiver_def DeclX_def)
qed

text \<open>
  C10: if the file has no open editor document with a latest snapshot, or no previous
  snapshot is from the same buffer as that latest snapshot, the range is returned
  unchanged; and the remapping fails only if some previous snapshot is from the same buffer
  with a different stamp and the forward remap of one end of the range fails.
\<close>

theorem remap_loc_unchanged_or_failed:
  "(latestSnapshotOf Lang File = None \<or>
    (\<exists>LatestSnap. latestSnapshotOf Lang File = Some LatestSnap \<and>
       (\<forall>S \<in> set PrevSnaps. \<not> isFromSameBuffer S LatestSnap))
      \<longrightarrow> tryRemappingLocToLatestSnapshot Lang Rng File PrevSnaps = Some Rng) \<and>
   (tryRemappingLocToLatestSnapshot Lang Rng File PrevSnaps = None
      \<longrightarrow> (\<exists>LatestSnap PrevSnap.
             latestSnapshotOf Lang File = Some LatestSnap \<and> PrevSnap \<in> set PrevSnaps \<and>
             isFromSameBuffer PrevSnap LatestSnap \<and> Stamp PrevSnap \<noteq> Stamp LatestSnap \<and>
             (mapOffsetToNewerSnapshot (EditLog Lang) (fst Rng) PrevSnap LatestSnap = None \<or>
              mapOffsetToNewerSnapshot (EditLog Lang) (fst Rng + snd Rng) PrevSnap LatestSnap = None)))"
proof -
  have unchanged: "remapInSnapshots Lang Rng LatestSnap PrevSnaps = Some Rng"
    if "\<forall>S \<in> set PrevSnaps. \<not> isFromSameBuffer S LatestSnap" for LatestSnap
    using remapInSnapshots_skip [OF that, of Lang Rng "[]"] by simp
  have failure: "\<exists>PrevSnap. PrevSnap \<in> set PrevSnaps \<and>
             isFromSameBuffer PrevSnap LatestSnap \<and> Stamp PrevSnap \<noteq> Stamp LatestSnap \<and>
             (mapOffsetToNewerSnapshot (EditLog Lang) (fst Rng) PrevSnap LatestSnap = None \<or>
              mapOffsetToNewerSnapshot (EditLog Lang) (fst Rng + snd Rng) PrevSnap LatestSnap = None)"
    if "remapInSnapshots Lang Rng LatestSnap PrevSnaps = None" for LatestSnap
    using that
  proof (induction PrevSnaps)
    case Nil
    then show ?case by simp
  next
    case (Cons PrevSnap PrevSnaps)
    show ?case
    proof (cases "isFromSameBuffer PrevSnap LatestSnap")
      case True
      then show ?thesis
        using Cons.prems by (auto split: if_splits option.splits)
    next
      case False
      then show ?thesis
        using Cons by auto
    qed
  qed
  show ?thesis
    using unchanged failure
    by (auto simp add: tryRemappingLocToLatestSnapshot_def split: option.splits)
qed

theorem remap_loc_unchanged_or_failed_witness:
  "latestSnapshotOf LangA ''b.swift'' = None \<and>
   tryRemappingLocToLatestSnapshot LangA (4, 1) ''b.swift'' [OldSnap1] = Some (4, 1) \<and>
   tryRemappingLocToLatestSnapshot LangB (5, 1) ''a.swift'' [OldSnap2] = None \<and>
   (\<exists>LatestSnap PrevSnap.
      latestSnapshotOf LangB ''a.swift'' = Some LatestSnap \<and> PrevSnap \<in> set [OldSnap2] \<and>
      isFromSameBuffer PrevSnap LatestSnap \<and> Stamp PrevSnap \<noteq> Stamp LatestSnap \<and>
      (mapOffsetToNewerSnapshot (EditLog LangB) (fst (5, 1)) PrevSnap LatestSnap = None \<or>
       mapOffsetToNewerSnapshot (EditLog LangB) (fst (5, 1) + snd (5, 1)) PrevSnap LatestSnap = None))"
  using remap_loc_unchanged_or_failed [of LangA "''b.swift''" "[OldSnap1]" "(4, 1)"]
    remap_loc_unchanged_or_failed [of LangB "''a.swift''" "[OldSnap2]" "(5, 1)"]
    LangA_no_document LangB_remap_fails
  by simp

section \<open>Claims about the related-identifier scan\<close>

text \<open>
  C9: the related-identifier scan collects nothing when the offset was inside a
  keyword-argument label, or the target is a constructor, destructor or subscript and the
  offset was not a reference, or the target's name is an operator.  Otherwise, for an
  offset that resolves to a declaration, it collects what the walk of the declaration's
  local context finds if it has one, and what the walk of the whole file finds if not.
\<close>

theorem related_idents_exclusions:
  assumes loc: "getLocForStartOfToken AstUnit Offset = Some Loc"
    and tok: "resolve AstUnit Loc = SemaTok"
  shows "(IsKeywordArgument SemaTok \<longrightarrow>
            RelatedIdConsumer_handlePrimaryAST Offset AstUnit Received =
              Received @ [\<lparr>RelatedRanges = [], RelatedIsCancelled = False\<rparr>]) \<and>
         (\<forall>VD. \<not> isInvalid SemaTok \<and>
               (case CtorTyRef SemaTok of Some T \<Rightarrow> Some T | None \<Rightarrow> ValueD SemaTok) = Some VD
            \<longrightarrow> RelatedIdConsumer_handlePrimaryAST Offset AstUnit Received =
                  Received @
                  [\<lparr>RelatedRanges =
                      (if IsKeywordArgument SemaTok \<or>
                          (\<not> IsRef SemaTok \<and>
                           (Kind VD = ConstructorDecl \<or> Kind VD = DestructorDecl \<or>
                            Kind VD = SubscriptDecl)) \<or>
                          isOperator VD
                       then []
                       else Ranges (walk (case LocalContext VD of
                                            Some LocalDC \<Rightarrow> LocalDC
                                          | None \<Rightarrow> PrimarySourceFile AstUnit)
                                      \<lparr>Dcl = DeclId VD, Ranges = [], Cancelled = False\<rparr>)),
                    RelatedIsCancelled = False\<rparr>])"
  using loc tok by (auto simp add: RelatedIdConsumer_handlePrimaryAST_def Action_def Let_def)

text \<open>
  The walk never stops early, since nothing sets \<^verbatim>\<open>Cancelled\<close>: it records, in order, the
  range of every site of the scope whose entity is the target.
\<close>

lemma walk_collects:
  "Ranges (walk Es \<lparr>Dcl = Target, Ranges = acc, Cancelled = False\<rparr>) =
     acc @ List.map_filter (occurrenceOf Target) Es"
proof (induction Es arbitrary: acc)
  case Nil
  then show ?case by (simp add: List.map_filter_simps)
next
  case (Cons E Es)
  then show ?case
    by (cases E)
       (simp_all add: List.map_filter_simps walkToDeclPre_def visitDeclReference_def passId_def)
qed

theorem related_idents_exclusions_witness:
  "RelatedIdConsumer_handlePrimaryAST 4 (ASTFor (tokenFor DeclX)) [] =
     [\<lparr>RelatedRanges = [(4, 1), (14, 1)], RelatedIsCancelled = False\<rparr>] \<and>
   RelatedIdConsumer_handlePrimaryAST 4
     (ASTFor (tokenFor (DeclX\<lparr>LocalContext := Some [RefSite 10 None (14, 1)]\<rparr>))) [] =
     [\<lparr>RelatedRanges = [(14, 1)], RelatedIsCancelled = False\<rparr>] \<and>
   RelatedIdConsumer_handlePrimaryAST 4
     (ASTFor ((tokenFor DeclX)\<lparr>IsKeywordArgument := True\<rparr>)) [] =
     [\<lparr>RelatedRanges = [], RelatedIsCancelled = False\<rparr>] \<and>
   RelatedIdConsumer_handlePrimaryAST 4
     (ASTFor ((tokenFor (DeclX\<lparr>Kind := ConstructorDecl\<rparr>))\<lparr>IsRef := False\<rparr>)) [] =
     [\<lparr>RelatedRanges = [], RelatedIsCancelled = False\<rparr>] \<and>
   RelatedIdConsumer_handlePrimaryAST 4 (ASTFor (tokenFor (DeclX\<lparr>isOperator := True\<rparr>))) [] =
     [\<lparr>RelatedRanges = [], RelatedIsCancelled = False\<rparr>]"
proof -
  let ?L = "DeclX\<lparr>LocalContext := Some [RefSite 10 None (14, 1)]\<rparr>"
  let ?K = "(tokenFor DeclX)\<lparr>IsKeywordArgument := True\<rparr>"
  let ?T = "(tokenFor (DeclX\<lparr>Kind := ConstructorDecl\<rparr>))\<lparr>IsRef := False\<rparr>"
  let ?O = "DeclX\<lparr>isOperator := True\<rparr>"
  have d: "DeclId DeclX = 10" "Kind DeclX = OtherDecl" "\<not> isOperator DeclX"
    "LocalContext DeclX = None"
    by (simp_all add: DeclX_def)
  from related_idents_exclusions [of "ASTFor (tokenFor DeclX)" 4 4 "tokenFor DeclX" "[]"]
    related_idents_exclusions [of "ASTFor (tokenFor ?L)" 4 4 "tokenFor ?L" "[]"]
    related_idents_exclusions [of "ASTFor ?K" 4 4 ?K "[]"]
    related_idents_exclusions [of "ASTFor ?T" 4 4 ?T "[]"]
    related_idents_exclusions [of "ASTFor (tokenFor ?O)" 4 4 "tokenFor ?O" "[]"]
  show ?thesis
    by (simp add: d isInvalid_def walk_collects List.map_filter_simps del: walk.simps)
qed

end
